theory Spec2Isabelle
  imports Main "HOL-Library.Multiset" "HOL-Library.Sublist"
begin

section \<open>Data model\<close>

text \<open>
  The backend is one Express server over a MySQL database. The tables are modelled as
  lists of rows in insertion order, a nullable column as an option, and the
  bookkeeping columns \<open>created_at\<close>, \<open>updated_at\<close> and \<open>qr_code\<close>, which no
  handler reads, are left out. Strings are lists of characters; a character stands
  for one code unit below 256. Column length limits are not modelled.
\<close>

text \<open>
  The role of a user row and of a token: the two values of the column's ENUM, and any
  other value, for which the handlers have a branch of their own.
\<close>

datatype role = Admin | Host | OtherRole

record user =
  u_id :: nat
  u_name :: string
  u_email :: string
  u_password :: string
  u_role :: role
  u_company_name :: "string option"
  u_is_verified :: bool

record company =
  c_id :: nat
  c_firstname :: string
  c_lastname :: "string option"
  c_email :: string
  c_password :: string
  c_role :: role
  c_company_name :: string
  c_mobile_number :: "string option"
  c_admin_company_id :: "nat option"

record visitor =
  vis_id :: nat
  vis_name :: string
  vis_email :: string
  vis_phone :: "string option"
  vis_designation :: "string option"
  vis_company :: "string option"
  vis_companyTel :: "string option"
  vis_website :: "string option"
  vis_address :: "string option"
  vis_photo :: "string option"
  vis_idCardPhoto :: "string option"
  vis_idCardNumber :: "string option"

record visit =
  v_id :: nat
  v_visitor_id :: nat
  v_host_id :: nat
  v_reason :: string
  v_itemsCarried :: "string option"
  v_check_in_time :: nat
  v_check_out_time :: "nat option"

text \<open>
  The database: the four tables, the AUTO_INCREMENT counters of the three tables that
  have one, and whether the UNIQUE index \<open>email\<close> of \<open>visitors\<close> from
  \<open>database_schema.sql\<close> is still there (the migration scripts drop it).
\<close>

record db =
  users :: "user list"
  companies :: "company list"
  visitors :: "visitor list"
  visits :: "visit list"
  next_user_id :: nat
  next_visitor_id :: nat
  next_visit_id :: nat
  visitors_email_index :: bool

text \<open>\<open>ALTER TABLE visitors DROP INDEX email\<close> of \<open>migration_update_schema.sql\<close>.\<close>

definition migration_update_schema :: "db \<Rightarrow> db" where
  "migration_update_schema d = d\<lparr>visitors_email_index := False\<rparr>"

text \<open>The authenticated principal that the token middleware puts into \<open>req.user\<close>.\<close>

record principal =
  p_id :: nat
  p_role :: role

section \<open>JavaScript and SQL primitives\<close>

text \<open>A JavaScript value used as a condition: \<open>undefined\<close>, \<open>null\<close> and \<open>''\<close> are falsy.\<close>

fun truthy :: "string option \<Rightarrow> bool" where
  "truthy None = False"
| "truthy (Some s) = (s \<noteq> [])"

text \<open>\<open>x || null\<close>.\<close>

definition or_null :: "string option \<Rightarrow> string option" where
  "or_null x = (if truthy x then x else None)"

text \<open>
  \<open>String.prototype.toLowerCase\<close> on code units below 256: the ASCII capitals and the
  Latin-1 capitals (U+00C0 to U+00DE without the multiplication sign) move up by 32.
\<close>

definition lower_char :: "char \<Rightarrow> char" where
  "lower_char c =
     (let n = (of_char c :: nat)
      in if (65 \<le> n \<and> n \<le> 90) \<or> (192 \<le> n \<and> n \<le> 222 \<and> n \<noteq> 215)
         then char_of (n + 32) else c)"

definition toLowerCase :: "string \<Rightarrow> string" where
  "toLowerCase s = map lower_char s"

text \<open>\<open>String.prototype.trim\<close>: white space and line terminators below 256.\<close>

definition is_space :: "char \<Rightarrow> bool" where
  "is_space c = ((of_char c :: nat) \<in> {9, 10, 11, 12, 13, 32, 160})"

definition trim :: "string \<Rightarrow> string" where
  "trim s = rev (dropWhile is_space (rev (dropWhile is_space s)))"

text \<open>
  SQL compares strings under the collation of the column, which the schema leaves to
  the server's default. A collation is given by its weight function: two strings
  are equal when their weights are. The identity is a binary collation. A comparison
  with NULL is never true.
\<close>

type_synonym collation = "string \<Rightarrow> string"

fun sql_eq :: "collation \<Rightarrow> string option \<Rightarrow> string option \<Rightarrow> bool" where
  "sql_eq coll (Some a) (Some b) = (coll a = coll b)"
| "sql_eq coll _ _ = False"

text \<open>
  \<open>subject LIKE pattern\<close> with the default escape character: \<open>%\<close> matches any run of
  characters, \<open>_\<close> any one character, a backslash makes the next pattern character
  literal, and any other character matches the characters equal to it under the
  collation.
\<close>

fun like :: "collation \<Rightarrow> string \<Rightarrow> string \<Rightarrow> bool" where
  "like coll [] s = (s = [])"
| "like coll (p # ps) s =
     (if p = CHR ''%'' then
        like coll ps s \<or> (case s of [] \<Rightarrow> False | c # cs \<Rightarrow> like coll (p # ps) cs)
      else if p = CHR ''_'' then
        (case s of [] \<Rightarrow> False | c # cs \<Rightarrow> like coll ps cs)
      else if p = CHR 0x5C then
        (case ps of
           [] \<Rightarrow> (case s of [] \<Rightarrow> False | c # cs \<Rightarrow> coll [p] = coll [c] \<and> cs = [])
         | q # qs \<Rightarrow> (case s of [] \<Rightarrow> False | c # cs \<Rightarrow> coll [q] = coll [c] \<and> like coll qs cs))
      else
        (case s of [] \<Rightarrow> False | c # cs \<Rightarrow> coll [p] = coll [c] \<and> like coll ps cs))"

text \<open>\<open>DATE(t)\<close> of a timestamp in seconds: the number of its day.\<close>

definition DATE :: "nat \<Rightarrow> nat" where
  "DATE t = t div 86400"

section \<open>Requests, responses and failures\<close>

text \<open>
  Every call of the database driver (and of the mailer and the token library) may
  throw for a reason that the tables do not determine: a lost connection, a lock
  timeout, a value too long for its column. The handlers are modelled for one such
  failure at most, named by the call that throws; \<open>None\<close> is a run without one.
\<close>

datatype site =
    GetConnection | Begin | Commit
  | SelectCallerName | SelectAdminCompany | SelectHost | SelectHostCompany
  | SelectActiveVisits | InsertVisitor | InsertVisit
  | SelectCompanyRow | InsertUser | InsertCompany | SendMail
  | UpdateVerified | SelectUserByEmail | SignToken
  | SelectVisits | SelectHostVisits | SelectVisitHost | UpdateCheckout

datatype sql_error = ER_DUP_ENTRY | ER_BAD_NULL_ERROR | ER_NO_REFERENCED_ROW | DriverError

text \<open>A row of the visit listings: the three joined rows its columns are taken from.\<close>

type_synonym visit_row = "visit \<times> visitor \<times> user"

record user_info =
  i_id :: nat
  i_name :: string
  i_email :: string
  i_role :: role
  i_company_name :: "string option"

datatype body =
    Message string
  | Page string
  | LoggedIn principal user_info
  | Registered user_info
  | CheckedIn nat
  | VisitList "visit_row list"

text \<open>
  What the client gets: a status with a body, or nothing at all when the handler's
  promise is rejected outside of any \<open>try\<close>.
\<close>

datatype response = Reply nat body | NoReply

section \<open>Transactions\<close>

text \<open>
  A transaction works on a copy of the committed state. \<open>rollback\<close> gives the
  committed tables back; the AUTO_INCREMENT counters are not transactional and keep
  the values they reached.
\<close>

definition beginTransaction :: "db \<Rightarrow> db" where
  "beginTransaction d = d"

definition rollback :: "db \<Rightarrow> db \<Rightarrow> db" where
  "rollback d tx = d\<lparr>next_user_id := next_user_id tx,
                      next_visitor_id := next_visitor_id tx,
                      next_visit_id := next_visit_id tx\<rparr>"

definition commit :: "db \<Rightarrow> db" where
  "commit tx = tx"

section \<open>POST /api/login\<close>

definition login :: "collation \<Rightarrow> site option \<Rightarrow> db \<Rightarrow> string option \<Rightarrow> string option \<Rightarrow> response" where
  "login coll fault d email password =
     (if fault = Some SelectUserByEmail
      then Reply 500 (Message ''Server error during login.'')
      else
        (case [u \<leftarrow> users d. sql_eq coll (Some (u_email u)) email] of
           [] \<Rightarrow> Reply 401 (Message ''Invalid email or password.'')
         | user # _ \<Rightarrow>
             if Some (u_password user) \<noteq> password
             then Reply 401 (Message ''Invalid email or password.'')
             else if u_role user \<noteq> Host \<and> \<not> u_is_verified user
             then Reply 403 (Message ''Please verify your email address before logging in.'')
             else if fault = Some SignToken
             then Reply 500 (Message ''Server error during login.'')
             else Reply 200
                    (LoggedIn \<lparr>p_id = u_id user, p_role = u_role user\<rparr>
                       \<lparr>i_id = u_id user, i_name = u_name user, i_email = u_email user,
                        i_role = u_role user,
                        i_company_name = or_null (u_company_name user)\<rparr>)))"

section \<open>POST /api/visits (check-in)\<close>

text \<open>
  The request body. The four fields that the handler requires are strings, the empty
  string standing for every falsy value; the other fields are \<open>None\<close> when absent.
\<close>

record checkin_req =
  q_name :: string
  q_email :: string
  q_phone :: "string option"
  q_designation :: "string option"
  q_company :: "string option"
  q_companyTel :: "string option"
  q_website :: "string option"
  q_address :: "string option"
  q_hostName :: string
  q_reason :: "string option"
  q_itemsCarried :: "string option"
  q_photo :: "string option"
  q_idCardPhoto :: "string option"
  q_idCardNumber :: string

text \<open>\<open>FROM visits v JOIN visitors vis ON v.visitor_id = vis.id JOIN users h ON v.host_id = h.id\<close>.\<close>

definition joined :: "db \<Rightarrow> visit_row list" where
  "joined d =
     [(v, vis, h). v \<leftarrow> visits d,
                   vis \<leftarrow> visitors d, v_visitor_id v = vis_id vis,
                   h \<leftarrow> users d, v_host_id v = u_id h]"

text \<open>
  The duplicate check: the ids of the visits of a visitor with this email that are not
  checked out and whose host has this company name.
\<close>

definition active_visits :: "collation \<Rightarrow> db \<Rightarrow> string \<Rightarrow> string option \<Rightarrow> nat list" where
  "active_visits coll d email company =
     [v_id v. (v, vis, h) \<leftarrow> joined d,
              sql_eq coll (Some (vis_email vis)) (Some email)
              \<and> v_check_out_time v = None
              \<and> sql_eq coll (u_company_name h) company]"

text \<open>The reply of the handler's catch block; the error text it adds is left out.\<close>

definition tx_failed :: response where
  "tx_failed = Reply 500 (Message ''Database transaction failed.'')"

text \<open>
  Resolving \<open>host_id\<close> from the caller and the submitted host name. \<open>Inl\<close> is the
  response of a branch that rolls back and returns.
\<close>

definition resolve_host_id ::
  "collation \<Rightarrow> site option \<Rightarrow> db \<Rightarrow> principal \<Rightarrow> string \<Rightarrow> response + nat" where
  "resolve_host_id coll fault tx caller hostName =
     (if p_role caller = Host then
        if fault = Some SelectCallerName then Inl tx_failed
        else
          (case [u \<leftarrow> users tx. u_id u = p_id caller] of
             [] \<Rightarrow> Inl (Reply 403 (Message ''Hosts can only check in visitors for themselves.''))
           | hostUser # _ \<Rightarrow>
               if toLowerCase (u_name hostUser) \<noteq> toLowerCase hostName
               then Inl (Reply 403 (Message ''Hosts can only check in visitors for themselves.''))
               else Inr (p_id caller))
      else if p_role caller = Admin then
        if fault = Some SelectAdminCompany then Inl tx_failed
        else
          (case [u \<leftarrow> users tx. u_id u = p_id caller] of
             [] \<Rightarrow> Inl (Reply 400 (Message ''Admin company information not found.''))
           | adminUser # _ \<Rightarrow>
               if \<not> truthy (u_company_name adminUser)
               then Inl (Reply 400 (Message ''Admin company information not found.''))
               else if fault = Some SelectHost then Inl tx_failed
               else
                 (case [u \<leftarrow> users tx. sql_eq coll (Some (u_name u)) (Some hostName)
                                       \<and> u_role u = Host
                                       \<and> sql_eq coll (u_company_name u) (u_company_name adminUser)] of
                    [] \<Rightarrow> Inl (Reply 404 (Message ''Host not found in your company.''))
                  | hostRow # _ \<Rightarrow> Inr (u_id hostRow)))
      else Inl (Reply 403 (Message ''Unauthorized access.'')))"

text \<open>
  \<open>INSERT INTO visitors\<close>: refused by the UNIQUE index on \<open>email\<close> while the index
  exists; the new row gets the next AUTO_INCREMENT id.
\<close>

definition new_visitor :: "nat \<Rightarrow> checkin_req \<Rightarrow> visitor" where
  "new_visitor i req =
     \<lparr>vis_id = i, vis_name = q_name req, vis_email = q_email req, vis_phone = q_phone req,
      vis_designation = q_designation req, vis_company = q_company req,
      vis_companyTel = q_companyTel req, vis_website = q_website req,
      vis_address = q_address req, vis_photo = q_photo req,
      vis_idCardPhoto = q_idCardPhoto req, vis_idCardNumber = Some (q_idCardNumber req)\<rparr>"

definition insert_visitor ::
  "collation \<Rightarrow> site option \<Rightarrow> db \<Rightarrow> checkin_req \<Rightarrow> sql_error + (nat \<times> db)" where
  "insert_visitor coll fault tx req =
     (if fault = Some InsertVisitor then Inl DriverError
      else if visitors_email_index tx
              \<and> (\<exists>vis \<in> set (visitors tx). sql_eq coll (Some (vis_email vis)) (Some (q_email req)))
      then Inl ER_DUP_ENTRY
      else Inr (next_visitor_id tx,
                tx\<lparr>visitors := visitors tx @ [new_visitor (next_visitor_id tx) req],
                   next_visitor_id := Suc (next_visitor_id tx)\<rparr>))"

text \<open>
  \<open>INSERT INTO visits\<close>: \<open>reason\<close> is NOT NULL, and the two foreign keys must point to
  existing rows.
\<close>

definition insert_visit ::
  "site option \<Rightarrow> db \<Rightarrow> nat \<Rightarrow> nat \<Rightarrow> string option \<Rightarrow> string option \<Rightarrow> nat
     \<Rightarrow> sql_error + (nat \<times> db)" where
  "insert_visit fault tx visitor_id host_id reason itemsCarried check_in_time =
     (if fault = Some InsertVisit then Inl DriverError
      else
        (case reason of
           None \<Rightarrow> Inl ER_BAD_NULL_ERROR
         | Some r \<Rightarrow>
             if \<not> ((\<exists>vis \<in> set (visitors tx). vis_id vis = visitor_id)
                    \<and> (\<exists>h \<in> set (users tx). u_id h = host_id))
             then Inl ER_NO_REFERENCED_ROW
             else Inr (next_visit_id tx,
                       tx\<lparr>visits := visits tx @
                             [\<lparr>v_id = next_visit_id tx, v_visitor_id = visitor_id,
                               v_host_id = host_id, v_reason = r,
                               v_itemsCarried = itemsCarried,
                               v_check_in_time = check_in_time,
                               v_check_out_time = None\<rparr>],
                          next_visit_id := Suc (next_visit_id tx)\<rparr>)))"

text \<open>\<open>null\<close> inside a template literal.\<close>

definition template :: "string option \<Rightarrow> string" where
  "template x = (case x of None \<Rightarrow> ''null'' | Some s \<Rightarrow> s)"

definition already_checked_in :: "string option \<Rightarrow> response" where
  "already_checked_in hostCompanyName =
     Reply 409 (Message (''This visitor is already checked in to '' @ template hostCompanyName
       @ '' and has not checked out yet. Please check out first before checking in again to the same company.''))"

text \<open>The handler: the response and the committed state it leaves behind.\<close>

definition checkin ::
  "collation \<Rightarrow> nat \<Rightarrow> site option \<Rightarrow> db \<Rightarrow> principal \<Rightarrow> checkin_req \<Rightarrow> response \<times> db" where
  "checkin coll now fault d caller req =
     (if q_name req = [] \<or> q_email req = [] \<or> q_hostName req = [] \<or> q_idCardNumber req = []
      then (Reply 400 (Message ''Missing required fields for check-in.''), d)
      else if fault = Some GetConnection then (NoReply, d)
      else if fault = Some Begin then (tx_failed, rollback d d)
      else
        (let tx = beginTransaction d in
         case resolve_host_id coll fault tx caller (q_hostName req) of
           Inl reply \<Rightarrow> (reply, rollback d tx)
         | Inr host_id \<Rightarrow>
             if fault = Some SelectHostCompany then (tx_failed, rollback d tx)
             else
               (case [u \<leftarrow> users tx. u_id u = host_id] of
                  [] \<Rightarrow> (Reply 400 (Message ''Host company information not found.''),
                         rollback d tx)
                | hostCompanyInfo # _ \<Rightarrow>
                    (let hostCompanyName = u_company_name hostCompanyInfo in
                     if fault = Some SelectActiveVisits then (tx_failed, rollback d tx)
                     else if active_visits coll tx (q_email req) hostCompanyName \<noteq> []
                     then (already_checked_in hostCompanyName, rollback d tx)
                     else
                       (case insert_visitor coll fault tx req of
                          Inl e \<Rightarrow> (tx_failed, rollback d tx)
                        | Inr (visitor_id, tx1) \<Rightarrow>
                            (case insert_visit fault tx1 visitor_id host_id
                                    (q_reason req) (q_itemsCarried req) now of
                               Inl e \<Rightarrow> (tx_failed, rollback d tx1)
                             | Inr (visit_id, tx2) \<Rightarrow>
                                 if fault = Some Commit then (tx_failed, rollback d tx2)
                                 else (Reply 201 (CheckedIn visit_id), commit tx2)))))))"

text \<open>
  The handler awaits every query, and each request has a connection of its own from
  the pool, so another request may run between two queries of this one. The handler
  is given once more in the two parts that the last SELECT divides: the tests, which
  write nothing and end with the host id or with the reply of a rejection, and the
  two INSERTs with the commit. Run one after the other on one state they are the
  handler.
\<close>

definition checkin_checks ::
  "collation \<Rightarrow> site option \<Rightarrow> db \<Rightarrow> principal \<Rightarrow> checkin_req \<Rightarrow> response + nat" where
  "checkin_checks coll fault d caller req =
     (if q_name req = [] \<or> q_email req = [] \<or> q_hostName req = [] \<or> q_idCardNumber req = []
      then Inl (Reply 400 (Message ''Missing required fields for check-in.''))
      else if fault = Some GetConnection then Inl NoReply
      else if fault = Some Begin then Inl tx_failed
      else
        (let tx = beginTransaction d in
         case resolve_host_id coll fault tx caller (q_hostName req) of
           Inl reply \<Rightarrow> Inl reply
         | Inr host_id \<Rightarrow>
             if fault = Some SelectHostCompany then Inl tx_failed
             else
               (case [u \<leftarrow> users tx. u_id u = host_id] of
                  [] \<Rightarrow> Inl (Reply 400 (Message ''Host company information not found.''))
                | hostCompanyInfo # _ \<Rightarrow>
                    (let hostCompanyName = u_company_name hostCompanyInfo in
                     if fault = Some SelectActiveVisits then Inl tx_failed
                     else if active_visits coll tx (q_email req) hostCompanyName \<noteq> []
                     then Inl (already_checked_in hostCompanyName)
                     else Inr host_id))))"

definition checkin_writes ::
  "collation \<Rightarrow> nat \<Rightarrow> site option \<Rightarrow> db \<Rightarrow> checkin_req \<Rightarrow> nat \<Rightarrow> response \<times> db" where
  "checkin_writes coll now fault d req host_id =
     (case insert_visitor coll fault d req of
        Inl e \<Rightarrow> (tx_failed, rollback d d)
      | Inr (visitor_id, tx1) \<Rightarrow>
          (case insert_visit fault tx1 visitor_id host_id
                  (q_reason req) (q_itemsCarried req) now of
             Inl e \<Rightarrow> (tx_failed, rollback d tx1)
           | Inr (visit_id, tx2) \<Rightarrow>
               if fault = Some Commit then (tx_failed, rollback d tx2)
               else (Reply 201 (CheckedIn visit_id), commit tx2)))"

section \<open>PUT /api/visits/:id/checkout\<close>

text \<open>
  \<open>UPDATE visits SET check_out_time = ? WHERE id = ? AND check_out_time IS NULL\<close>:
  the number of rows it changed, and the table after it.
\<close>

definition update_checkout :: "db \<Rightarrow> nat \<Rightarrow> nat \<Rightarrow> nat \<times> db" where
  "update_checkout d check_out_time i =
     (length [v \<leftarrow> visits d. v_id v = i \<and> v_check_out_time v = None],
      d\<lparr>visits := map (\<lambda>v. if v_id v = i \<and> v_check_out_time v = None
                             then v\<lparr>v_check_out_time := Some check_out_time\<rparr> else v)
                       (visits d)\<rparr>)"

text \<open>
  The host's ownership test runs before the \<open>try\<close> block, the update inside it.
  The visit id of the URL is given by the number it denotes.
\<close>

definition checkout :: "nat \<Rightarrow> site option \<Rightarrow> db \<Rightarrow> principal \<Rightarrow> nat \<Rightarrow> response \<times> db" where
  "checkout now fault d caller i =
     (if p_role caller = Host \<and> fault = Some SelectVisitHost then (NoReply, d)
      else if p_role caller = Host
              \<and> (case [v \<leftarrow> visits d. v_id v = i] of
                    [] \<Rightarrow> True
                  | visitRow # _ \<Rightarrow> v_host_id visitRow \<noteq> p_id caller)
      then (Reply 403 (Message ''Hosts can only check out their own visitors.''), d)
      else if fault = Some UpdateCheckout
      then (Reply 500 (Message ''Failed to check out visitor.''), d)
      else
        (let (affectedRows, d') = update_checkout d now i
         in if affectedRows > 0
            then (Reply 200 (Message ''Check-out successful.''), d')
            else (Reply 404 (Message ''Visit not found or visitor already checked out.''), d')))"

section \<open>GET /api/visits and GET /api/host-visits\<close>

text \<open>
  The query string of the admin listing. \<open>hostId\<close> and the two dates are given by the
  number they denote, \<open>None\<close> when absent or empty; the two name filters are strings,
  the empty string standing for an absent one.
\<close>

record visit_filters =
  f_hostId :: "nat option"
  f_startDate :: "nat option"
  f_endDate :: "nat option"
  f_hostName :: string
  f_visitorName :: string

text \<open>The optional conditions, in the order in which the handler pushes them.\<close>

definition conditions :: "collation \<Rightarrow> visit_filters \<Rightarrow> (visit_row \<Rightarrow> bool) list" where
  "conditions coll f =
     (case f_hostId f of None \<Rightarrow> [] | Some hostId \<Rightarrow> [\<lambda>(v, vis, h). v_host_id v = hostId])
     @ (case f_startDate f of None \<Rightarrow> []
        | Some startDate \<Rightarrow> [\<lambda>(v, vis, h). DATE (v_check_in_time v) \<ge> startDate])
     @ (case f_endDate f of None \<Rightarrow> []
        | Some endDate \<Rightarrow> [\<lambda>(v, vis, h). DATE (v_check_in_time v) \<le> endDate])
     @ (if f_hostName f = [] then []
        else [\<lambda>(v, vis, h). like coll (''%'' @ f_hostName f @ ''%'') (u_name h)])
     @ (if f_visitorName f = [] then []
        else [\<lambda>(v, vis, h). like coll (''%'' @ f_visitorName f @ ''%'') (vis_name vis)])"

text \<open>
  \<open>ORDER BY v.check_in_time DESC\<close>. SQL leaves the order of rows with equal times
  open; the model keeps them in table order.
\<close>

definition order_by_check_in_time_desc :: "visit_row list \<Rightarrow> visit_row list" where
  "order_by_check_in_time_desc rows = sort_key (\<lambda>(v, vis, h). - int (v_check_in_time v)) rows"

definition get_visits ::
  "collation \<Rightarrow> site option \<Rightarrow> db \<Rightarrow> principal \<Rightarrow> visit_filters \<Rightarrow> response" where
  "get_visits coll fault d caller f =
     (if p_role caller \<noteq> Admin then Reply 403 (Message ''Admin access required.'')
      else if fault = Some SelectAdminCompany then Reply 500 (Message ''Failed to fetch visits.'')
      else
        (case [u \<leftarrow> users d. u_id u = p_id caller] of
           [] \<Rightarrow> Reply 400 (Message ''Admin company information not found.'')
         | adminUser # _ \<Rightarrow>
             if \<not> truthy (u_company_name adminUser)
             then Reply 400 (Message ''Admin company information not found.'')
             else if fault = Some SelectVisits
             then Reply 500 (Message ''Failed to fetch visits.'')
             else Reply 200 (VisitList (order_by_check_in_time_desc (remdups
                    [(v, vis, h) \<leftarrow> joined d.
                       sql_eq coll (u_company_name h) (u_company_name adminUser)
                       \<and> list_all (\<lambda>c. c (v, vis, h)) (conditions coll f)])))))"

definition get_host_visits :: "site option \<Rightarrow> db \<Rightarrow> principal \<Rightarrow> response" where
  "get_host_visits fault d caller =
     (if p_role caller \<noteq> Host then Reply 403 (Message ''Host access required.'')
      else if fault = Some SelectHostVisits then Reply 500 (Message ''Failed to fetch visits.'')
      else Reply 200 (VisitList (order_by_check_in_time_desc
             [(v, vis, h) \<leftarrow> joined d. v_host_id v = p_id caller])))"

section \<open>POST /api/register, POST /api/registerCompany, GET /api/verify-email\<close>

text \<open>
  \<open>INSERT INTO users\<close>: \<open>email\<close> is UNIQUE; \<open>is_verified\<close> gets its default, false.
\<close>

definition insert_user ::
  "collation \<Rightarrow> site option \<Rightarrow> db \<Rightarrow> string \<Rightarrow> string \<Rightarrow> string \<Rightarrow> role \<Rightarrow> string option
     \<Rightarrow> sql_error + (nat \<times> db)" where
  "insert_user coll fault tx name email password r company_name =
     (if fault = Some InsertUser then Inl DriverError
      else if \<exists>u \<in> set (users tx). sql_eq coll (Some (u_email u)) (Some email)
      then Inl ER_DUP_ENTRY
      else Inr (next_user_id tx,
                tx\<lparr>users := users tx @
                      [\<lparr>u_id = next_user_id tx, u_name = name, u_email = email,
                        u_password = password, u_role = r, u_company_name = company_name,
                        u_is_verified = False\<rparr>],
                   next_user_id := Suc (next_user_id tx)\<rparr>))"

text \<open>
  \<open>INSERT INTO companies\<close>: \<open>id\<close> is the primary key and a foreign key into
  \<open>users\<close>, as \<open>admin_company_id\<close> is when it is not NULL.
\<close>

definition insert_company :: "site option \<Rightarrow> db \<Rightarrow> company \<Rightarrow> sql_error + db" where
  "insert_company fault tx row =
     (if fault = Some InsertCompany then Inl DriverError
      else if \<exists>c \<in> set (companies tx). c_id c = c_id row then Inl ER_DUP_ENTRY
      else if \<not> ((\<exists>u \<in> set (users tx). u_id u = c_id row)
                  \<and> (case c_admin_company_id row of
                        None \<Rightarrow> True
                      | Some a \<Rightarrow> \<exists>u \<in> set (users tx). u_id u = a))
      then Inl ER_NO_REFERENCED_ROW
      else Inr (tx\<lparr>companies := companies tx @ [row]\<rparr>))"

text \<open>
  A field of a JSON body that a handler prints into a string: the key is absent, its
  value is \<open>null\<close>, or it is a string. A template literal prints the first two as
  \<open>undefined\<close> and \<open>null\<close>; the database driver sends both as NULL.
\<close>

datatype field = Absent | Null | Text string

definition print_field :: "field \<Rightarrow> string" where
  "print_field x = (case x of Absent \<Rightarrow> ''undefined'' | Null \<Rightarrow> ''null'' | Text s \<Rightarrow> s)"

definition param_field :: "field \<Rightarrow> string option" where
  "param_field x = (case x of Absent \<Rightarrow> None | Null \<Rightarrow> None | Text s \<Rightarrow> Some s)"

text \<open>The body of both registrations.\<close>

record register_req =
  r_email :: string
  r_firstName :: string
  r_lastName :: field
  r_password :: string
  r_companyName :: string
  r_mobileNumber :: "string option"

text \<open>\<open>`${firstName} ${lastName}`.trim()\<close>.\<close>

definition full_name :: "register_req \<Rightarrow> string" where
  "full_name req = trim (r_firstName req @ '' '' @ print_field (r_lastName req))"

definition registration_error :: "sql_error \<Rightarrow> response" where
  "registration_error e =
     (if e = ER_DUP_ENTRY
      then Reply 409 (Message ''An account with this email already exists.'')
      else Reply 500 (Message ''Server error during registration.''))"

text \<open>An admin creates a host of the admin's company. The two inserts are not in a transaction.\<close>

definition register ::
  "collation \<Rightarrow> site option \<Rightarrow> db \<Rightarrow> principal \<Rightarrow> register_req \<Rightarrow> response \<times> db" where
  "register coll fault d caller req =
     (if p_role caller \<noteq> Admin
      then (Reply 403 (Message ''Only admins can create new users.''), d)
      else if r_email req = [] \<or> r_firstName req = [] \<or> r_password req = []
      then (Reply 400 (Message ''Please provide email, first name, and password.''), d)
      else if fault = Some SelectCompanyRow then (registration_error DriverError, d)
      else
        (case [c \<leftarrow> companies d. c_id c = p_id caller] of
           [] \<Rightarrow> (Reply 400 (Message ''Admin company information not found.''), d)
         | adminCompany # _ \<Rightarrow>
             (let companyName = c_company_name adminCompany in
              case insert_user coll fault d (full_name req) (r_email req) (r_password req)
                     Host (Some companyName) of
                Inl e \<Rightarrow> (registration_error e, d)
              | Inr (insertId, d1) \<Rightarrow>
                  (case insert_company fault d1
                          \<lparr>c_id = insertId, c_firstname = r_firstName req,
                           c_lastname = param_field (r_lastName req), c_email = r_email req,
                           c_password = r_password req, c_role = Host,
                           c_company_name = companyName, c_mobile_number = None,
                           c_admin_company_id = Some (p_id caller)\<rparr> of
                     Inl e \<Rightarrow> (registration_error e, d1)
                   | Inr d2 \<Rightarrow>
                       (Reply 201 (Registered
                          \<lparr>i_id = insertId, i_name = full_name req, i_email = r_email req,
                           i_role = Host, i_company_name = Some companyName\<rparr>), d2)))))"

text \<open>
  A company registers with its admin, in one transaction; the verification mail is
  sent after the commit. The reply names the role \<open>host\<close>, as the handler does.
\<close>

definition registerCompany ::
  "collation \<Rightarrow> site option \<Rightarrow> db \<Rightarrow> register_req \<Rightarrow> response \<times> db" where
  "registerCompany coll fault d req =
     (if r_email req = [] \<or> r_firstName req = [] \<or> r_password req = [] \<or> r_companyName req = []
      then (Reply 400 (Message ''Please provide email, first name, password, and company name.''), d)
      else if fault = Some GetConnection then (NoReply, d)
      else if fault = Some Begin then (registration_error DriverError, rollback d d)
      else
        (let tx = beginTransaction d in
         case insert_user coll fault tx (full_name req) (r_email req) (r_password req)
                Admin (Some (r_companyName req)) of
           Inl e \<Rightarrow> (registration_error e, rollback d tx)
         | Inr (userId, tx1) \<Rightarrow>
             (case insert_company fault tx1
                     \<lparr>c_id = userId, c_firstname = r_firstName req,
                      c_lastname = param_field (r_lastName req), c_email = r_email req,
                      c_password = r_password req, c_role = Admin,
                      c_company_name = r_companyName req,
                      c_mobile_number = or_null (r_mobileNumber req),
                      c_admin_company_id = None\<rparr> of
                Inl e \<Rightarrow> (registration_error e, rollback d tx1)
              | Inr tx2 \<Rightarrow>
                  if fault = Some Commit then (registration_error DriverError, rollback d tx2)
                  else
                    (let d' = commit tx2 in
                     if fault = Some SignToken \<or> fault = Some SendMail
                     then (registration_error DriverError, rollback d' d')
                     else (Reply 201 (Registered
                             \<lparr>i_id = userId, i_name = full_name req, i_email = r_email req,
                              i_role = Host, i_company_name = Some (r_companyName req)\<rparr>),
                           d')))))"

text \<open>
  The verification link: the token is missing, rejected by the token library, or
  carries a user id. The pages are given by their headings.
\<close>

datatype token = NoToken | BadToken | Token nat

definition verify_email :: "site option \<Rightarrow> db \<Rightarrow> token \<Rightarrow> response \<times> db" where
  "verify_email fault d tok =
     (case tok of
        NoToken \<Rightarrow> (Reply 400 (Page ''Verification Failed''), d)
      | BadToken \<Rightarrow> (Reply 400 (Page ''Verification Failed''), d)
      | Token userId \<Rightarrow>
          if fault = Some UpdateVerified then (Reply 400 (Page ''Verification Failed''), d)
          else (Reply 200 (Page ''Email Verified Successfully!''),
                d\<lparr>users := map (\<lambda>u. if u_id u = userId then u\<lparr>u_is_verified := True\<rparr> else u)
                                 (users d)\<rparr>))"

section \<open>Reachable states\<close>

text \<open>
  A freshly installed database has users and companies, whose ids are distinct and
  below the counter, and no visitor or visit yet.
\<close>

definition installed :: "db \<Rightarrow> bool" where
  "installed d =
     (visitors d = [] \<and> visits d = [] \<and> distinct (map u_id (users d))
      \<and> (\<forall>u \<in> set (users d). u_id u < next_user_id d))"

text \<open>
  The states that the server reaches when no two requests overlap: each of the five
  handlers that write runs from its first query to its last before the next request
  starts, whoever calls it with whatever request.
\<close>

inductive reachable :: "collation \<Rightarrow> db \<Rightarrow> bool" for coll :: collation where
  reach_installed: "installed d \<Longrightarrow> reachable coll d"
| reach_register: "reachable coll d \<Longrightarrow> reachable coll (snd (register coll fault d caller rreq))"
| reach_registerCompany:
    "reachable coll d \<Longrightarrow> reachable coll (snd (registerCompany coll fault d rreq))"
| reach_verify_email: "reachable coll d \<Longrightarrow> reachable coll (snd (verify_email fault d tok))"
| reach_checkin:
    "reachable coll d \<Longrightarrow> reachable coll (snd (checkin coll now fault d caller req))"
| reach_checkout: "reachable coll d \<Longrightarrow> reachable coll (snd (checkout now fault d caller i))"

text \<open>
  The states that the server reaches when check-ins overlap. The committed state comes
  with the check-ins that have passed their tests and not yet written: each is the
  request with the host id it resolved. A check-in passes its tests on the committed
  state of that moment, and writes on the committed state of a later moment; in
  between, other requests run, whole or up to their own tests. The other handlers
  are kept whole, so the server reaches every state that this relation reaches.
\<close>

inductive overlapping ::
  "collation \<Rightarrow> db \<Rightarrow> (checkin_req \<times> nat) list \<Rightarrow> bool" for coll :: collation where
  over_installed: "installed d \<Longrightarrow> overlapping coll d []"
| over_register:
    "overlapping coll d waiting \<Longrightarrow> overlapping coll (snd (register coll fault d caller rreq)) waiting"
| over_registerCompany:
    "overlapping coll d waiting \<Longrightarrow> overlapping coll (snd (registerCompany coll fault d rreq)) waiting"
| over_verify_email:
    "overlapping coll d waiting \<Longrightarrow> overlapping coll (snd (verify_email fault d tok)) waiting"
| over_checkin:
    "overlapping coll d waiting \<Longrightarrow>
       overlapping coll (snd (checkin coll now fault d caller req)) waiting"
| over_checkout:
    "overlapping coll d waiting \<Longrightarrow> overlapping coll (snd (checkout now fault d caller i)) waiting"
| over_checks:
    "overlapping coll d waiting \<Longrightarrow> checkin_checks coll fault d caller req = Inr host_id \<Longrightarrow>
       overlapping coll d (waiting @ [(req, host_id)])"
| over_writes:
    "overlapping coll d waiting \<Longrightarrow> (req, host_id) \<in> set waiting \<Longrightarrow>
       overlapping coll (snd (checkin_writes coll now fault d req host_id))
         (remove1 (req, host_id) waiting)"

section \<open>Auxiliary notions for the proofs\<close>

text \<open>
  What a handler that fails leaves behind: every table as it was, the counters of
  \<open>visitors\<close> and \<open>visits\<close> possibly advanced.
\<close>

definition same_tables :: "db \<Rightarrow> db \<Rightarrow> bool" where
  "same_tables d d' =
     (users d' = users d \<and> companies d' = companies d \<and> visitors d' = visitors d
      \<and> visits d' = visits d \<and> visitors_email_index d' = visitors_email_index d
      \<and> next_user_id d' = next_user_id d
      \<and> next_visitor_id d \<le> next_visitor_id d' \<and> next_visit_id d \<le> next_visit_id d')"

text \<open>What a registration does to the state: nothing, or one more user under a fresh id.\<close>

definition user_step :: "db \<Rightarrow> db \<Rightarrow> bool" where
  "user_step d d' =
     (visitors d' = visitors d \<and> visits d' = visits d
      \<and> next_visitor_id d' = next_visitor_id d
      \<and> ((users d' = users d \<and> next_user_id d \<le> next_user_id d')
          \<or> (\<exists>nu. users d' = users d @ [nu] \<and> u_id nu = next_user_id d
                   \<and> next_user_id d' = Suc (next_user_id d))))"

text \<open>The rows that the join pairs with one visit.\<close>

definition partners :: "user list \<Rightarrow> visitor list \<Rightarrow> visit \<Rightarrow> visit_row list" where
  "partners us viss v =
     [(v, vis, h). vis \<leftarrow> viss, v_visitor_id v = vis_id vis, h \<leftarrow> us, v_host_id v = u_id h]"

text \<open>The WHERE clause of the duplicate check.\<close>

definition is_active :: "collation \<Rightarrow> string \<Rightarrow> string option \<Rightarrow> visit_row \<Rightarrow> bool" where
  "is_active coll email company = (\<lambda>(v, vis, h).
     sql_eq coll (Some (vis_email vis)) (Some email) \<and> v_check_out_time v = None
     \<and> sql_eq coll (u_company_name h) company)"

text \<open>
  The key constraints every reachable state keeps: user ids are distinct, ids lie
  below their counters, and a visit points below the counters of the tables it
  refers to.
\<close>

definition keys_ok :: "db \<Rightarrow> bool" where
  "keys_ok d =
     (distinct (map u_id (users d))
      \<and> (\<forall>u \<in> set (users d). u_id u < next_user_id d)
      \<and> (\<forall>vis \<in> set (visitors d). vis_id vis < next_visitor_id d)
      \<and> (\<forall>v \<in> set (visits d). v_visitor_id v < next_visitor_id d \<and> v_host_id v < next_user_id d))"

definition one_active :: "collation \<Rightarrow> db \<Rightarrow> bool" where
  "one_active coll d = (\<forall>email company. length (active_visits coll d email (Some company)) \<le> 1)"


text \<open>A filter text without the characters that LIKE treats specially.\<close>

definition wildcard_free :: "string \<Rightarrow> bool" where
  "wildcard_free p = (\<forall>c \<in> set p. c \<noteq> CHR ''%'' \<and> c \<noteq> CHR ''_'' \<and> c \<noteq> CHR 0x5C)"

section \<open>Example data\<close>

text \<open>
  Two companies, Acme (admin Ann, host Bob) and Globex (admin Gus, host Carol), and the
  admin that \<open>database_schema.sql\<close> seeds, who has no company. In \<open>db1\<close> Bob has
  checked Alice in.
\<close>

definition acme_admin :: user where
  "acme_admin = \<lparr>u_id = 1, u_name = ''Ann'', u_email = ''ann@acme.com'', u_password = ''pw1'',
     u_role = Admin, u_company_name = Some ''Acme'', u_is_verified = True\<rparr>"

definition bob :: user where
  "bob = \<lparr>u_id = 2, u_name = ''Bob'', u_email = ''bob@acme.com'', u_password = ''pw2'',
     u_role = Host, u_company_name = Some ''Acme'', u_is_verified = False\<rparr>"

definition globex_admin :: user where
  "globex_admin = \<lparr>u_id = 3, u_name = ''Gus'', u_email = ''gus@globex.com'', u_password = ''pw3'',
     u_role = Admin, u_company_name = Some ''Globex'', u_is_verified = False\<rparr>"

definition carol :: user where
  "carol = \<lparr>u_id = 4, u_name = ''Carol'', u_email = ''carol@globex.com'', u_password = ''pw4'',
     u_role = Host, u_company_name = Some ''Globex'', u_is_verified = True\<rparr>"

definition seeded_admin :: user where
  "seeded_admin = \<lparr>u_id = 5, u_name = ''Admin User'', u_email = ''admin@vms.com'',
     u_password = ''admin123'', u_role = Admin, u_company_name = None, u_is_verified = True\<rparr>"

definition db0 :: db where
  "db0 = \<lparr>users = [acme_admin, bob, globex_admin, carol, seeded_admin], companies = [],
     visitors = [], visits = [], next_user_id = 6, next_visitor_id = 1, next_visit_id = 1,
     visitors_email_index = False\<rparr>"

definition alice_req :: "string \<Rightarrow> string option \<Rightarrow> checkin_req" where
  "alice_req host reason = \<lparr>q_name = ''Alice'', q_email = ''alice@x.com'', q_phone = None,
     q_designation = None, q_company = None, q_companyTel = None, q_website = None,
     q_address = None, q_hostName = host, q_reason = reason, q_itemsCarried = None,
     q_photo = None, q_idCardPhoto = None, q_idCardNumber = ''ID-1''\<rparr>"

definition binary :: collation where
  "binary s = s"

definition alice_visitor :: visitor where
  "alice_visitor = new_visitor 1 (alice_req ''bob'' (Some ''Meeting''))"

definition alice_visit :: visit where
  "alice_visit = \<lparr>v_id = 1, v_visitor_id = 1, v_host_id = 2, v_reason = ''Meeting'',
     v_itemsCarried = None, v_check_in_time = 100, v_check_out_time = None\<rparr>"

definition db1 :: db where
  "db1 = snd (checkin binary 100 None db0 \<lparr>p_id = 2, p_role = Host\<rparr>
                (alice_req ''bob'' (Some ''Meeting'')))"

text \<open>
  In \<open>db2\<close> Bob has checked Alice out again; in \<open>db3\<close> Gus has checked her in with
  Carol of Globex while she was still with Bob.
\<close>

definition db2 :: db where
  "db2 = snd (checkout 150 None db1 \<lparr>p_id = 2, p_role = Host\<rparr> 1)"

definition db3 :: db where
  "db3 = snd (checkin binary 200 None db1 \<lparr>p_id = 3, p_role = Admin\<rparr>
                (alice_req ''Carol'' (Some ''Audit'')))"

text \<open>The query string without any filter, and the rows of Alice's visit to Carol.\<close>

definition no_filters :: visit_filters where
  "no_filters = \<lparr>f_hostId = None, f_startDate = None, f_endDate = None,
                  f_hostName = [], f_visitorName = []\<rparr>"

definition carol_visit :: visit where
  "carol_visit = \<lparr>v_id = 2, v_visitor_id = 2, v_host_id = 4, v_reason = ''Audit'',
     v_itemsCarried = None, v_check_in_time = 200, v_check_out_time = None\<rparr>"

definition carol_visitor :: visitor where
  "carol_visitor = new_visitor 2 (alice_req ''Carol'' (Some ''Audit''))"

text \<open>
  Two check-ins of Alice with Bob that overlap: both pass their tests on \<open>db0\<close>,
  then the first writes, then the second.
\<close>

definition db_first :: db where
  "db_first = snd (checkin_writes binary 100 None db0 (alice_req ''bob'' (Some ''Meeting'')) 2)"

definition db_both :: db where
  "db_both = snd (checkin_writes binary 101 None db_first (alice_req ''Bob'' (Some ''Again'')) 2)"

section \<open>Lemmas about the statements and handlers\<close>

lemma same_tables_refl: "same_tables d d"
  by (simp add: same_tables_def)

lemma same_tables_rollback:
  "next_user_id tx = next_user_id d \<Longrightarrow> next_visitor_id d \<le> next_visitor_id tx
     \<Longrightarrow> next_visit_id d \<le> next_visit_id tx \<Longrightarrow> same_tables d (rollback d tx)"
  by (simp add: same_tables_def rollback_def)

lemma resolve_host_id_Inl:
  "resolve_host_id coll fault tx caller hostName = Inl r \<Longrightarrow> r \<noteq> Reply 201 b"
  by (auto simp: resolve_host_id_def tx_failed_def split: if_splits list.splits)

lemma insert_visitor_Inr:
  "insert_visitor coll fault tx req = Inr (i, tx1) \<Longrightarrow>
     i = next_visitor_id tx
     \<and> tx1 = tx\<lparr>visitors := visitors tx @ [new_visitor (next_visitor_id tx) req],
                next_visitor_id := Suc (next_visitor_id tx)\<rparr>"
  by (auto simp: insert_visitor_def split: if_splits)

lemma insert_visit_Inr:
  "insert_visit fault tx visitor_id host_id reason items t = Inr (i, tx1) \<Longrightarrow>
     i = next_visit_id tx
     \<and> (\<exists>r. reason = Some r
          \<and> tx1 = tx\<lparr>visits := visits tx @
                       [\<lparr>v_id = next_visit_id tx, v_visitor_id = visitor_id,
                         v_host_id = host_id, v_reason = r, v_itemsCarried = items,
                         v_check_in_time = t, v_check_out_time = None\<rparr>],
                     next_visit_id := Suc (next_visit_id tx)\<rparr>)"
  by (auto simp: insert_visit_def split: if_splits option.splits)

lemma checkin_cases:
  assumes "checkin coll now fault d caller req = (r, d')"
  shows "(same_tables d d' \<and> (\<forall>i. r \<noteq> Reply 201 (CheckedIn i)))
       \<or> (\<exists>host_id h rest reason.
            resolve_host_id coll fault d caller (q_hostName req) = Inr host_id
          \<and> [u \<leftarrow> users d. u_id u = host_id] = h # rest
          \<and> active_visits coll d (q_email req) (u_company_name h) = []
          \<and> q_reason req = Some reason
          \<and> r = Reply 201 (CheckedIn (next_visit_id d))
          \<and> d' = d\<lparr>visitors := visitors d @ [new_visitor (next_visitor_id d) req],
                    next_visitor_id := Suc (next_visitor_id d),
                    visits := visits d @
                      [\<lparr>v_id = next_visit_id d, v_visitor_id = next_visitor_id d,
                        v_host_id = host_id, v_reason = reason,
                        v_itemsCarried = q_itemsCarried req, v_check_in_time = now,
                        v_check_out_time = None\<rparr>],
                    next_visit_id := Suc (next_visit_id d)\<rparr>)"
proof (cases "q_name req = [] \<or> q_email req = [] \<or> q_hostName req = [] \<or> q_idCardNumber req = []
              \<or> fault = Some GetConnection \<or> fault = Some Begin")
  case True
  with assms show ?thesis
    by (auto simp: checkin_def same_tables_refl same_tables_rollback tx_failed_def split: if_splits)
next
  case pre: False
  show ?thesis
  proof (cases "resolve_host_id coll fault d caller (q_hostName req)")
    case (Inl reply)
    with assms pre show ?thesis
      by (auto simp: checkin_def Let_def beginTransaction_def same_tables_rollback
               dest: resolve_host_id_Inl)
  next
    case (Inr host_id)
    show ?thesis
    proof (cases "fault = Some SelectHostCompany \<or> [u \<leftarrow> users d. u_id u = host_id] = []")
      case True
      with assms pre Inr show ?thesis
        by (auto simp: checkin_def Let_def beginTransaction_def same_tables_rollback tx_failed_def
              split: if_splits)
    next
      case False
      then obtain h rest where h: "[u \<leftarrow> users d. u_id u = host_id] = h # rest"
        by (cases "[u \<leftarrow> users d. u_id u = host_id]") auto
      show ?thesis
      proof (cases "fault = Some SelectActiveVisits
                    \<or> active_visits coll d (q_email req) (u_company_name h) \<noteq> []")
        case True
        with assms pre Inr False h show ?thesis
          by (auto simp: checkin_def Let_def beginTransaction_def same_tables_rollback tx_failed_def
                already_checked_in_def split: if_splits)
      next
        case chk: False
        show ?thesis
        proof (cases "insert_visitor coll fault d req")
          case (Inl e)
          with assms pre Inr False h chk show ?thesis
            by (auto simp: checkin_def Let_def beginTransaction_def same_tables_rollback tx_failed_def)
        next
          case (Inr p)
          obtain i1 tx1 where p: "p = (i1, tx1)" by (cases p)
          with Inr have iv1: "insert_visitor coll fault d req = Inr (i1, tx1)" by simp
          from insert_visitor_Inr [OF iv1]
          have i1: "i1 = next_visitor_id d"
            and tx1_eq: "tx1 = d\<lparr>visitors := visitors d @ [new_visitor (next_visitor_id d) req],
                                 next_visitor_id := Suc (next_visitor_id d)\<rparr>"
            by blast+
          from iv1 i1 have tx1: "insert_visitor coll fault d req = Inr (next_visitor_id d, tx1)"
            by simp
          show ?thesis
          proof (cases "insert_visit fault tx1 (next_visitor_id d) host_id (q_reason req)
                          (q_itemsCarried req) now")
            case (Inl e)
            with assms pre \<open>resolve_host_id coll fault d caller (q_hostName req) = Inr host_id\<close>
              False h chk tx1 tx1_eq show ?thesis
              by (auto simp: checkin_def Let_def beginTransaction_def same_tables_rollback tx_failed_def)
          next
            case (Inr p2)
            obtain i2 tx2 where p2: "p2 = (i2, tx2)" by (cases p2)
            with Inr have iv2: "insert_visit fault tx1 (next_visitor_id d) host_id (q_reason req)
                          (q_itemsCarried req) now = Inr (i2, tx2)" by simp
            from insert_visit_Inr [OF iv2] obtain reason where
                i2: "i2 = next_visit_id tx1"
              and reason: "q_reason req = Some reason"
              and tx2_eq: "tx2 = tx1\<lparr>visits := visits tx1 @
                       [\<lparr>v_id = next_visit_id tx1, v_visitor_id = next_visitor_id d,
                         v_host_id = host_id, v_reason = reason,
                         v_itemsCarried = q_itemsCarried req,
                         v_check_in_time = now, v_check_out_time = None\<rparr>],
                     next_visit_id := Suc (next_visit_id tx1)\<rparr>"
              by blast
            from iv2 i2 have tx2: "insert_visit fault tx1 (next_visitor_id d) host_id (q_reason req)
                          (q_itemsCarried req) now = Inr (next_visit_id tx1, tx2)" by simp
            have res: "checkin coll now fault d caller req
                    = (if fault = Some Commit then (tx_failed, rollback d tx2)
                       else (Reply 201 (CheckedIn (next_visit_id tx1)), commit tx2))"
              using pre \<open>resolve_host_id coll fault d caller (q_hostName req) = Inr host_id\<close>
                False h chk tx1 tx2
              by (simp add: checkin_def Let_def beginTransaction_def)
            show ?thesis
            proof (cases "fault = Some Commit")
              case True
              with res assms tx1_eq tx2_eq show ?thesis
                by (auto simp: same_tables_rollback tx_failed_def)
            next
              case False
              with res assms have "r = Reply 201 (CheckedIn (next_visit_id tx1))" "d' = tx2"
                by (simp_all add: commit_def)
              with \<open>resolve_host_id coll fault d caller (q_hostName req) = Inr host_id\<close>
                h chk reason tx1_eq tx2_eq show ?thesis
                by simp
            qed
          qed
        qed
      qed
    qed
  qed
qed

lemma joined_partners: "joined d = concat (map (partners (users d) (visitors d)) (visits d))"
  by (simp add: joined_def partners_def [abs_def])

lemma partners_fresh_visitor:
  "v_visitor_id v \<noteq> vis_id nvis \<Longrightarrow> partners us (viss @ [nvis]) v = partners us viss v"
  by (simp add: partners_def)

lemma partners_fresh_user:
  "v_host_id v \<noteq> u_id nu \<Longrightarrow> partners (us @ [nu]) viss v = partners us viss v"
  by (induction viss) (simp_all add: partners_def)

lemma partners_map_users:
  assumes "\<And>u. u_id (g u) = u_id u"
  shows "partners (map g us) viss v = map (\<lambda>(v, vis, h). (v, vis, g h)) (partners us viss v)"
  using assms by (induction viss) (simp_all add: partners_def map_concat o_def if_distrib cong: if_cong)

lemma active_visits_filter:
  "active_visits coll d email company
     = map (\<lambda>(v, vis, h). v_id v) (filter (is_active coll email company) (joined d))"
proof -
  have "\<And>rows. [v_id v. (v, vis, h) \<leftarrow> rows,
              sql_eq coll (Some (vis_email vis)) (Some email) \<and> v_check_out_time v = None
              \<and> sql_eq coll (u_company_name h) company]
        = map (\<lambda>(v, vis, h). v_id v) (filter (is_active coll email company) rows)"
    subgoal for rows by (induction rows) (auto simp: is_active_def split: prod.splits)
    done
  then show ?thesis by (simp add: active_visits_def)
qed

lemma one_active_filter:
  "one_active coll d
     = (\<forall>email company. length (filter (is_active coll email (Some company)) (joined d)) \<le> 1)"
  by (simp add: one_active_def active_visits_filter)

lemma joined_same:
  "users d' = users d \<Longrightarrow> visitors d' = visitors d \<Longrightarrow> visits d' = visits d
     \<Longrightarrow> joined d' = joined d"
  by (simp add: joined_partners)

lemma filter_key_le_1: "distinct (map f xs) \<Longrightarrow> length [x \<leftarrow> xs. f x = k] \<le> 1"
proof (induction xs)
  case Nil then show ?case by simp
next
  case (Cons a xs)
  show ?case
  proof (cases "f a = k")
    case True
    with Cons.prems have "\<forall>x \<in> set xs. f x \<noteq> k" by (auto simp: image_iff)
    then have "[x \<leftarrow> xs. f x = k] = []" by (simp add: filter_empty_conv)
    with True show ?thesis by simp
  next
    case False
    with Cons show ?thesis by simp
  qed
qed

lemma partners_new:
  assumes "\<forall>vis \<in> set viss. vis_id vis \<noteq> v_visitor_id nv" and "v_visitor_id nv = vis_id nvis"
  shows "partners us (viss @ [nvis]) nv = map (\<lambda>h. (nv, nvis, h)) [h \<leftarrow> us. u_id h = v_host_id nv]"
proof -
  have a: "concat (map (\<lambda>vis. if v_visitor_id nv = vis_id vis
             then concat (map (\<lambda>h. if v_host_id nv = u_id h then [(nv, vis, h)] else []) us)
             else []) viss) = []"
    using assms(1) by (induction viss) auto
  have b: "concat (map (\<lambda>h. if v_host_id nv = u_id h then [(nv, nvis, h)] else []) us)
             = map (\<lambda>h. (nv, nvis, h)) [h \<leftarrow> us. u_id h = v_host_id nv]"
    by (induction us) auto
  show ?thesis using a b assms(2) by (simp add: partners_def)
qed

lemma joined_checkin:
  assumes "keys_ok d" and "[u \<leftarrow> users d. u_id u = v_host_id nv] = h # rest"
      and "vis_id nvis = next_visitor_id d" and "v_visitor_id nv = next_visitor_id d"
      and "users d' = users d" and "visitors d' = visitors d @ [nvis]"
      and "visits d' = visits d @ [nv]"
  shows "joined d' = joined d @ [(nv, nvis, h)]"
proof -
  have old: "map (partners (users d) (visitors d @ [nvis])) (visits d)
               = map (partners (users d) (visitors d)) (visits d)"
  proof (rule map_cong [OF refl])
    fix v assume "v \<in> set (visits d)"
    with assms(1,3) have "v_visitor_id v \<noteq> vis_id nvis" by (auto simp: keys_ok_def)
    then show "partners (users d) (visitors d @ [nvis]) v = partners (users d) (visitors d) v"
      by (rule partners_fresh_visitor)
  qed
  have "length [u \<leftarrow> users d. u_id u = v_host_id nv] \<le> 1"
    using assms(1) by (intro filter_key_le_1) (simp add: keys_ok_def)
  with assms(2) have one: "[u \<leftarrow> users d. u_id u = v_host_id nv] = [h]" by simp
  have "\<forall>vis \<in> set (visitors d). vis_id vis \<noteq> v_visitor_id nv"
    using assms(1,4) by (auto simp: keys_ok_def)
  then have new: "partners (users d) (visitors d @ [nvis]) nv = [(nv, nvis, h)]"
    using partners_new [of "visitors d" nv nvis "users d"] assms(3,4) one by simp
  show ?thesis
    by (simp add: joined_partners assms(5,6,7) old new)
qed

lemma is_active_company_cong:
  assumes "coll e = coll e'" and "sql_eq coll c (Some k)"
  shows "is_active coll e (Some k) = is_active coll e' c"
proof -
  from assms(2) obtain k' where c: "c = Some k'" and k: "coll k' = coll k"
    by (cases c) auto
  have "\<And>x. sql_eq coll x (Some k) = sql_eq coll x (Some k')"
    subgoal for x using k by (cases x) auto
    done
  then show ?thesis using assms(1) c by (auto simp: is_active_def fun_eq_iff)
qed

lemma one_active_checkin:
  assumes "keys_ok d" and "one_active coll d"
      and "[u \<leftarrow> users d. u_id u = v_host_id nv] = h # rest"
      and "active_visits coll d (vis_email nvis) (u_company_name h) = []"
      and "vis_id nvis = next_visitor_id d" and "v_visitor_id nv = next_visitor_id d"
      and "users d' = users d" and "visitors d' = visitors d @ [nvis]"
      and "visits d' = visits d @ [nv]"
  shows "one_active coll d'"
  unfolding one_active_filter
proof (intro allI)
  fix email company
  have j: "joined d' = joined d @ [(nv, nvis, h)]"
    using assms by (intro joined_checkin [where rest = rest]) simp_all
  have none: "filter (is_active coll (vis_email nvis) (u_company_name h)) (joined d) = []"
    using assms(4) by (simp add: active_visits_filter)
  show "length (filter (is_active coll email (Some company)) (joined d')) \<le> 1"
  proof (cases "is_active coll email (Some company) (nv, nvis, h)")
    case True
    then have "coll email = coll (vis_email nvis)" "sql_eq coll (u_company_name h) (Some company)"
      by (auto simp: is_active_def)
    then have "is_active coll email (Some company)
                 = is_active coll (vis_email nvis) (u_company_name h)"
      by (rule is_active_company_cong)
    with none j show ?thesis by simp
  next
    case False
    with j assms(2) show ?thesis by (simp add: one_active_filter)
  qed
qed

lemma keys_ok_checkin:
  assumes "keys_ok d" and "[u \<leftarrow> users d. u_id u = v_host_id nv] = h # rest"
      and "vis_id nvis = next_visitor_id d" and "v_visitor_id nv = next_visitor_id d"
      and "users d' = users d" and "visitors d' = visitors d @ [nvis]"
      and "visits d' = visits d @ [nv]"
      and "next_user_id d' = next_user_id d" and "next_visitor_id d' = Suc (next_visitor_id d)"
  shows "keys_ok d'"
proof -
  have "h \<in> set [u \<leftarrow> users d. u_id u = v_host_id nv]" using assms(2) by simp
  then have "h \<in> set (users d)" "u_id h = v_host_id nv" by auto
  with assms(1) have "v_host_id nv < next_user_id d" by (auto simp: keys_ok_def)
  with assms show ?thesis by (auto simp: keys_ok_def less_Suc_eq)
qed

lemma insert_user_Inr:
  "insert_user coll fault tx name email password r company_name = Inr (i, tx1) \<Longrightarrow>
     i = next_user_id tx \<and> visitors tx1 = visitors tx \<and> visits tx1 = visits tx
     \<and> next_visitor_id tx1 = next_visitor_id tx \<and> next_visit_id tx1 = next_visit_id tx
     \<and> next_user_id tx1 = Suc (next_user_id tx)
     \<and> (\<exists>nu. users tx1 = users tx @ [nu] \<and> u_id nu = next_user_id tx)"
  by (auto simp: insert_user_def split: if_splits)

lemma insert_company_Inr:
  "insert_company fault tx row = Inr tx1 \<Longrightarrow>
     users tx1 = users tx \<and> visitors tx1 = visitors tx \<and> visits tx1 = visits tx
     \<and> next_visitor_id tx1 = next_visitor_id tx \<and> next_visit_id tx1 = next_visit_id tx
     \<and> next_user_id tx1 = next_user_id tx"
  by (auto simp: insert_company_def split: if_splits)

lemma user_step_refl: "user_step d d"
  by (simp add: user_step_def)

lemma user_step_rollback:
  "next_visitor_id tx = next_visitor_id d \<Longrightarrow> next_user_id d \<le> next_user_id tx
     \<Longrightarrow> user_step d (rollback d tx)"
  by (simp add: user_step_def rollback_def)

lemma register_user_step:
  assumes "register coll fault d caller req = (r, d')"
  shows "user_step d d'"
proof (cases "p_role caller \<noteq> Admin \<or> r_email req = [] \<or> r_firstName req = []
              \<or> r_password req = [] \<or> fault = Some SelectCompanyRow
              \<or> [c \<leftarrow> companies d. c_id c = p_id caller] = []")
  case True
  with assms show ?thesis
    by (auto simp: register_def user_step_refl split: if_splits)
next
  case False
  then obtain ac rest where ac: "[c \<leftarrow> companies d. c_id c = p_id caller] = ac # rest"
    by (cases "[c \<leftarrow> companies d. c_id c = p_id caller]") auto
  show ?thesis
  proof (cases "insert_user coll fault d (full_name req) (r_email req) (r_password req)
                  Host (Some (c_company_name ac))")
    case (Inl e)
    with assms False ac show ?thesis
      by (auto simp: register_def Let_def user_step_refl)
  next
    case (Inr p)
    obtain i d1 where p: "p = (i, d1)" by (cases p)
    with Inr have iu: "insert_user coll fault d (full_name req) (r_email req) (r_password req)
                  Host (Some (c_company_name ac)) = Inr (i, d1)" by simp
    note u = insert_user_Inr [OF iu]
    from u have s1: "user_step d d1" by (auto simp: user_step_def)
    show ?thesis
    proof (cases "insert_company fault d1
                          \<lparr>c_id = i, c_firstname = r_firstName req,
                           c_lastname = param_field (r_lastName req), c_email = r_email req,
                           c_password = r_password req, c_role = Host,
                           c_company_name = c_company_name ac, c_mobile_number = None,
                           c_admin_company_id = Some (p_id caller)\<rparr>")
      case (Inl e)
      with assms False ac iu have "d' = d1" by (auto simp: register_def Let_def)
      with s1 show ?thesis by simp
    next
      case (Inr d2)
      with assms False ac iu have "d' = d2" by (auto simp: register_def Let_def)
      with insert_company_Inr [OF Inr] u show ?thesis by (auto simp: user_step_def)
    qed
  qed
qed

lemma registerCompany_user_step:
  assumes "registerCompany coll fault d req = (r, d')"
  shows "user_step d d'"
proof (cases "r_email req = [] \<or> r_firstName req = [] \<or> r_password req = []
              \<or> r_companyName req = [] \<or> fault = Some GetConnection \<or> fault = Some Begin")
  case True
  with assms show ?thesis
    by (auto simp: registerCompany_def user_step_refl user_step_rollback split: if_splits)
next
  case False
  show ?thesis
  proof (cases "insert_user coll fault d (full_name req) (r_email req) (r_password req)
                  Admin (Some (r_companyName req))")
    case (Inl e)
    with assms False show ?thesis
      by (auto simp: registerCompany_def Let_def beginTransaction_def user_step_rollback)
  next
    case (Inr p)
    obtain i tx1 where p: "p = (i, tx1)" by (cases p)
    with Inr have iu: "insert_user coll fault d (full_name req) (r_email req) (r_password req)
                  Admin (Some (r_companyName req)) = Inr (i, tx1)" by simp
    note u = insert_user_Inr [OF iu]
    show ?thesis
    proof (cases "insert_company fault tx1
                     \<lparr>c_id = i, c_firstname = r_firstName req,
                      c_lastname = param_field (r_lastName req), c_email = r_email req,
                      c_password = r_password req, c_role = Admin,
                      c_company_name = r_companyName req,
                      c_mobile_number = or_null (r_mobileNumber req),
                      c_admin_company_id = None\<rparr>")
      case (Inl e)
      with assms False iu have "d' = rollback d tx1"
        by (auto simp: registerCompany_def Let_def beginTransaction_def)
      with u show ?thesis by (simp add: user_step_rollback)
    next
      case (Inr tx2)
      note c = insert_company_Inr [OF Inr]
      from assms False iu Inr have "d' = rollback d tx2 \<or> d' = tx2"
        by (auto simp: registerCompany_def Let_def beginTransaction_def commit_def rollback_def
              split: if_splits)
      then show ?thesis
      proof
        assume "d' = rollback d tx2"
        with u c show ?thesis by (simp add: user_step_rollback)
      next
        assume "d' = tx2"
        with u c show ?thesis by (auto simp: user_step_def)
      qed
    qed
  qed
qed

lemma keys_ok_mono:
  assumes "keys_ok d" and "users d' = users d" and "visitors d' = visitors d"
      and "visits d' = visits d" and "next_user_id d \<le> next_user_id d'"
      and "next_visitor_id d \<le> next_visitor_id d'"
  shows "keys_ok d'"
proof -
  have "u_id u < next_user_id d'" if "u \<in> set (users d)" for u
  proof -
    from that assms(1) have "u_id u < next_user_id d" by (simp add: keys_ok_def)
    with assms(5) show ?thesis by linarith
  qed
  moreover have "vis_id vis < next_visitor_id d'" if "vis \<in> set (visitors d)" for vis
  proof -
    from that assms(1) have "vis_id vis < next_visitor_id d" by (simp add: keys_ok_def)
    with assms(6) show ?thesis by linarith
  qed
  moreover have "v_visitor_id v < next_visitor_id d' \<and> v_host_id v < next_user_id d'"
    if "v \<in> set (visits d)" for v
  proof -
    from that assms(1) have "v_visitor_id v < next_visitor_id d \<and> v_host_id v < next_user_id d"
      by (simp add: keys_ok_def)
    with assms(5,6) show ?thesis by linarith
  qed
  moreover have "distinct (map u_id (users d))" using assms(1) by (simp add: keys_ok_def)
  ultimately show ?thesis by (simp add: keys_ok_def assms(2,3,4))
qed

lemma keys_ok_same_tables:
  assumes "keys_ok d" and "same_tables d d'"
  shows "keys_ok d'"
  using assms by (auto intro!: keys_ok_mono [of d d'] simp: same_tables_def)

lemma one_active_same:
  "one_active coll d \<Longrightarrow> users d' = users d \<Longrightarrow> visitors d' = visitors d
     \<Longrightarrow> visits d' = visits d \<Longrightarrow> one_active coll d'"
  using joined_same [of d' d] by (simp add: one_active_filter)

lemma joined_fresh_user:
  assumes "\<forall>v \<in> set (visits d). v_host_id v \<noteq> u_id nu"
      and "users d' = users d @ [nu]" and "visitors d' = visitors d" and "visits d' = visits d"
  shows "joined d' = joined d"
proof -
  have m: "map (partners (users d @ [nu]) (visitors d)) (visits d)
          = map (partners (users d) (visitors d)) (visits d)"
    using assms(1) by (intro map_cong [OF refl] partners_fresh_user) simp
  show ?thesis by (simp add: joined_partners assms(2,3,4) m)
qed

lemma inv_user_step:
  assumes "keys_ok d" and "one_active coll d" and "user_step d d'"
  shows "keys_ok d' \<and> one_active coll d'"
proof -
  from assms(3) consider
      (same) "users d' = users d" "next_user_id d \<le> next_user_id d'"
    | (new) nu where "users d' = users d @ [nu]" "u_id nu = next_user_id d"
                     "next_user_id d' = Suc (next_user_id d)"
    by (auto simp: user_step_def)
  then show ?thesis
  proof cases
    case same
    have "keys_ok d'"
      using assms(1) same assms(3) by (auto intro!: keys_ok_mono [of d d'] simp: user_step_def)
    moreover have "one_active coll d'"
      using assms(2) same(1) assms(3) by (auto intro!: one_active_same [of coll d d'] simp: user_step_def)
    ultimately show ?thesis by simp
  next
    case new
    have fresh: "\<forall>v \<in> set (visits d). v_host_id v \<noteq> u_id nu"
      using assms(1) new(2) by (auto simp: keys_ok_def)
    have "joined d' = joined d"
      using fresh new(1) assms(3) by (intro joined_fresh_user [where nu = nu]) (simp_all add: user_step_def)
    then have "one_active coll d'" using assms(2) by (simp add: one_active_filter)
    moreover have "keys_ok d'"
      using assms(1,3) new by (auto simp: keys_ok_def user_step_def less_Suc_eq)
    ultimately show ?thesis by simp
  qed
qed

lemma joined_map_users:
  fixes g :: "user \<Rightarrow> user"
  assumes "\<And>u. u_id (g u) = u_id u"
      and "users d' = map g (users d)" and "visitors d' = visitors d" and "visits d' = visits d"
  shows "joined d' = map (\<lambda>(v, vis, h). (v, vis, g h)) (joined d)"
proof -
  have m: "partners (map g (users d)) (visitors d)
             = (\<lambda>v. map (\<lambda>(v, vis, h). (v, vis, g h)) (partners (users d) (visitors d) v))"
    using assms(1) by (intro ext partners_map_users)
  show ?thesis by (simp add: joined_partners assms(2,3,4) m map_concat o_def)
qed

lemma inv_verify_email:
  assumes "keys_ok d" and "one_active coll d"
  shows "keys_ok (snd (verify_email fault d tok)) \<and> one_active coll (snd (verify_email fault d tok))"
proof (cases "\<exists>userId. tok = Token userId \<and> fault \<noteq> Some UpdateVerified")
  case False
  then have "snd (verify_email fault d tok) = d"
    by (auto simp: verify_email_def split: token.splits)
  with assms show ?thesis by simp
next
  case True
  then obtain userId where t: "tok = Token userId" "fault \<noteq> Some UpdateVerified" by auto
  define g :: "user \<Rightarrow> user" where "g = (\<lambda>u. if u_id u = userId then u\<lparr>u_is_verified := True\<rparr> else u)"
  define d' where "d' = snd (verify_email fault d tok)"
  have d': "users d' = map g (users d)" "visitors d' = visitors d" "visits d' = visits d"
       "next_user_id d' = next_user_id d" "next_visitor_id d' = next_visitor_id d"
    using t by (simp_all add: d'_def verify_email_def g_def)
  have g: "\<And>u. u_id (g u) = u_id u" "\<And>u. u_company_name (g u) = u_company_name u"
    by (simp_all add: g_def)
  have j: "joined d' = map (\<lambda>(v, vis, h). (v, vis, g h)) (joined d)"
    using g(1) d'(1,2,3) by (rule joined_map_users)
  have "\<And>e c. filter (is_active coll e c) (joined d')
               = map (\<lambda>(v, vis, h). (v, vis, g h)) (filter (is_active coll e c) (joined d))"
    by (simp add: j filter_map o_def is_active_def g(2) case_prod_unfold)
  then have "one_active coll d'" using assms(2) by (simp add: one_active_filter)
  moreover have "map u_id (map g (users d)) = map u_id (users d)" by (simp add: g(1))
  then have "keys_ok d'" using assms(1) d' g(1) by (auto simp: keys_ok_def o_def)
  ultimately show ?thesis by (simp add: d'_def)
qed

lemma partners_map_visit:
  fixes k :: "visit \<Rightarrow> visit"
  assumes "v_visitor_id (k v) = v_visitor_id v" and "v_host_id (k v) = v_host_id v"
  shows "partners us viss (k v) = map (\<lambda>(v, vis, h). (k v, vis, h)) (partners us viss v)"
  using assms by (induction viss) (simp_all add: partners_def map_concat o_def if_distrib cong: if_cong)

lemma length_filter_map_le:
  "(\<And>x. P (f x) \<Longrightarrow> Q x) \<Longrightarrow> length (filter P (map f xs)) \<le> length (filter Q xs)"
  by (induction xs) auto

lemma inv_checkout:
  assumes "keys_ok d" and "one_active coll d"
  shows "keys_ok (snd (checkout now fault d caller i)) \<and> one_active coll (snd (checkout now fault d caller i))"
proof -
  define k :: "visit \<Rightarrow> visit" where "k = (\<lambda>v. if v_id v = i \<and> v_check_out_time v = None
                             then v\<lparr>v_check_out_time := Some now\<rparr> else v)"
  define d' where "d' = snd (checkout now fault d caller i)"
  have "d' = d \<or> d' = d\<lparr>visits := map k (visits d)\<rparr>"
    by (auto simp: d'_def checkout_def update_checkout_def k_def Let_def split: if_splits)
  then show ?thesis
  proof
    assume "d' = d" with assms show ?thesis by (simp add: d'_def)
  next
    assume eq: "d' = d\<lparr>visits := map k (visits d)\<rparr>"
    have k: "\<And>v. v_visitor_id (k v) = v_visitor_id v" "\<And>v. v_host_id (k v) = v_host_id v"
            "\<And>v. v_check_out_time (k v) = None \<Longrightarrow> v_check_out_time v = None"
      by (simp_all add: k_def split: if_splits)
    have m: "(\<lambda>v. partners (users d) (visitors d) (k v))
             = (\<lambda>v. map (\<lambda>(v, vis, h). (k v, vis, h)) (partners (users d) (visitors d) v))"
      by (intro ext partners_map_visit k)
    have j: "joined d' = map (\<lambda>(v, vis, h). (k v, vis, h)) (joined d)"
      by (simp add: joined_partners eq m map_concat o_def)
    have le: "length (filter (is_active coll e c) (joined d'))
                 \<le> length (filter (is_active coll e c) (joined d))" for e c
      unfolding j by (rule length_filter_map_le) (auto simp: is_active_def dest: k(3))
    have "one_active coll d'"
      unfolding one_active_filter
    proof (intro allI)
      fix e c
      have "length (filter (is_active coll e (Some c)) (joined d)) \<le> 1"
        using assms(2) by (simp add: one_active_filter)
      with le [of e "Some c"]
      show "length (filter (is_active coll e (Some c)) (joined d')) \<le> 1" by linarith
    qed
    moreover have "keys_ok d'"
    proof -
      have "users d' = users d" "visitors d' = visitors d" "visits d' = map k (visits d)"
           "next_user_id d' = next_user_id d" "next_visitor_id d' = next_visitor_id d"
        by (simp_all add: eq)
      with assms(1) show ?thesis by (simp add: keys_ok_def k(1,2))
    qed
    ultimately show ?thesis by (simp add: d'_def)
  qed
qed

lemma inv_checkin:
  assumes "keys_ok d" and "one_active coll d"
  shows "keys_ok (snd (checkin coll now fault d caller req))
       \<and> one_active coll (snd (checkin coll now fault d caller req))"
proof -
  obtain r d' where c: "checkin coll now fault d caller req = (r, d')"
    by (cases "checkin coll now fault d caller req")
  from checkin_cases [OF c] show ?thesis
  proof (elim disjE conjE exE)
    assume "same_tables d d'"
    with assms c show ?thesis
      by (auto intro: keys_ok_same_tables one_active_same simp: same_tables_def)
  next
    fix host_id h rest reason
    assume h: "[u \<leftarrow> users d. u_id u = host_id] = h # rest"
       and a: "active_visits coll d (q_email req) (u_company_name h) = []"
       and d': "d' = d\<lparr>visitors := visitors d @ [new_visitor (next_visitor_id d) req],
                    next_visitor_id := Suc (next_visitor_id d),
                    visits := visits d @
                      [\<lparr>v_id = next_visit_id d, v_visitor_id = next_visitor_id d,
                        v_host_id = host_id, v_reason = reason,
                        v_itemsCarried = q_itemsCarried req, v_check_in_time = now,
                        v_check_out_time = None\<rparr>],
                    next_visit_id := Suc (next_visit_id d)\<rparr>"
    let ?nv = "\<lparr>v_id = next_visit_id d, v_visitor_id = next_visitor_id d,
                        v_host_id = host_id, v_reason = reason,
                        v_itemsCarried = q_itemsCarried req, v_check_in_time = now,
                        v_check_out_time = None\<rparr>"
    let ?nvis = "new_visitor (next_visitor_id d) req"
    have h': "[u \<leftarrow> users d. u_id u = v_host_id ?nv] = h # rest" using h by simp
    have a': "active_visits coll d (vis_email ?nvis) (u_company_name h) = []"
      using a by (simp add: new_visitor_def)
    have 1: "one_active coll d'"
      using assms h' a'
      by (rule one_active_checkin [where nvis = ?nvis and nv = ?nv])
         (simp_all add: d' new_visitor_def)
    have 2: "keys_ok d'"
      using assms(1) h'
      by (rule keys_ok_checkin [where nvis = ?nvis and nv = ?nv])
         (simp_all add: d' new_visitor_def)
    from 1 2 c show ?thesis by simp
  qed
qed

lemma inv_installed: "installed d \<Longrightarrow> keys_ok d \<and> one_active coll d"
  by (simp add: installed_def keys_ok_def one_active_def active_visits_def joined_def)

lemma reachable_inv: "reachable coll d \<Longrightarrow> keys_ok d \<and> one_active coll d"
proof (induction rule: reachable.induct)
  case (reach_installed d)
  then show ?case by (rule inv_installed)
next
  case (reach_register d fault caller rreq)
  obtain r d' where "register coll fault d caller rreq = (r, d')"
    by (cases "register coll fault d caller rreq")
  with reach_register.IH register_user_step [OF this] show ?case
    by (auto dest: inv_user_step)
next
  case (reach_registerCompany d fault rreq)
  obtain r d' where "registerCompany coll fault d rreq = (r, d')"
    by (cases "registerCompany coll fault d rreq")
  with reach_registerCompany.IH registerCompany_user_step [OF this] show ?case
    by (auto dest: inv_user_step)
next
  case (reach_verify_email d fault tok)
  then show ?case using inv_verify_email by blast
next
  case (reach_checkin d now fault caller req)
  then show ?case using inv_checkin by blast
next
  case (reach_checkout d now fault caller i)
  then show ?case using inv_checkout by blast
qed

lemma rollback_self: "rollback d d = d"
  by (simp add: rollback_def)

lemma checkin_succeeds:
  assumes "q_name req \<noteq> []" and "q_email req \<noteq> []" and "q_hostName req \<noteq> []"
      and "q_idCardNumber req \<noteq> []"
      and "resolve_host_id coll None d caller (q_hostName req) = Inr host_id"
      and "[u \<leftarrow> users d. u_id u = host_id] = h # rest"
      and "active_visits coll d (q_email req) (u_company_name h) = []"
      and "q_reason req = Some reason"
      and "\<not> visitors_email_index d"
  shows "checkin coll now None d caller req =
           (Reply 201 (CheckedIn (next_visit_id d)),
            d\<lparr>visitors := visitors d @ [new_visitor (next_visitor_id d) req],
              next_visitor_id := Suc (next_visitor_id d),
              visits := visits d @
                [\<lparr>v_id = next_visit_id d, v_visitor_id = next_visitor_id d,
                  v_host_id = host_id, v_reason = reason,
                  v_itemsCarried = q_itemsCarried req, v_check_in_time = now,
                  v_check_out_time = None\<rparr>],
              next_visit_id := Suc (next_visit_id d)\<rparr>)"
proof -
  have "h \<in> set [u \<leftarrow> users d. u_id u = host_id]" using assms(6) by simp
  then have fk: "\<exists>u \<in> set (users d). u_id u = host_id" by auto
  have iv: "insert_visitor coll None d req
              = Inr (next_visitor_id d,
                     d\<lparr>visitors := visitors d @ [new_visitor (next_visitor_id d) req],
                       next_visitor_id := Suc (next_visitor_id d)\<rparr>)"
    using assms(9) by (simp add: insert_visitor_def)
  have iv2: "insert_visit None
               (d\<lparr>visitors := visitors d @ [new_visitor (next_visitor_id d) req],
                  next_visitor_id := Suc (next_visitor_id d)\<rparr>)
               (next_visitor_id d) host_id (q_reason req) (q_itemsCarried req) now
              = Inr (next_visit_id d,
                     d\<lparr>visitors := visitors d @ [new_visitor (next_visitor_id d) req],
                       next_visitor_id := Suc (next_visitor_id d),
                       visits := visits d @
                         [\<lparr>v_id = next_visit_id d, v_visitor_id = next_visitor_id d,
                           v_host_id = host_id, v_reason = reason,
                           v_itemsCarried = q_itemsCarried req, v_check_in_time = now,
                           v_check_out_time = None\<rparr>],
                       next_visit_id := Suc (next_visit_id d)\<rparr>)"
    using fk assms(8) by (simp add: insert_visit_def new_visitor_def)
  show ?thesis
    using assms(1-7) iv iv2
    by (simp add: checkin_def Let_def beginTransaction_def commit_def)
qed

lemma checkin_conflict:
  assumes "q_name req \<noteq> []" and "q_email req \<noteq> []" and "q_hostName req \<noteq> []"
      and "q_idCardNumber req \<noteq> []"
      and "resolve_host_id coll None d caller (q_hostName req) = Inr host_id"
      and "[u \<leftarrow> users d. u_id u = host_id] = h # rest"
      and "active_visits coll d (q_email req) (u_company_name h) \<noteq> []"
  shows "checkin coll now None d caller req = (already_checked_in (u_company_name h), d)"
  using assms by (simp add: checkin_def Let_def beginTransaction_def rollback_self)

lemma set_joined:
  "set (joined d) = {(v, vis, h). v \<in> set (visits d) \<and> vis \<in> set (visitors d) \<and> h \<in> set (users d)
                       \<and> v_visitor_id v = vis_id vis \<and> v_host_id v = u_id h}"
  by (auto simp: joined_def)

lemma active_visits_empty_iff:
  "active_visits coll d email company = []
     \<longleftrightarrow> (\<forall>row \<in> set (joined d). \<not> is_active coll email company row)"
  by (simp add: active_visits_filter filter_empty_conv)

lemma filter_id_unique:
  "distinct (map f xs) \<Longrightarrow> x \<in> set xs \<Longrightarrow> [y \<leftarrow> xs. f y = f x] = [x]"
proof (induction xs)
  case Nil then show ?case by simp
next
  case (Cons a xs)
  show ?case
  proof (cases "a = x")
    case True
    with Cons.prems have "\<forall>y \<in> set xs. f y \<noteq> f x" by (auto simp: image_iff)
    then have "[y \<leftarrow> xs. f y = f x] = []" by (simp add: filter_empty_conv)
    with True show ?thesis by simp
  next
    case False
    with Cons.prems have "x \<in> set xs" "f a \<noteq> f x" "distinct (map f xs)" by (auto simp: image_iff)
    with Cons.IH show ?thesis by simp
  qed
qed

lemma length_filter_concat_ge:
  assumes "\<And>x. x \<in> set xs \<Longrightarrow> Q x \<Longrightarrow> filter P (f x) \<noteq> []"
  shows "length (filter Q xs) \<le> length (filter P (concat (map f xs)))"
  using assms
proof (induction xs)
  case Nil then show ?case by simp
next
  case (Cons a xs)
  then have IH: "length (filter Q xs) \<le> length (filter P (concat (map f xs)))" by simp
  show ?case
  proof (cases "Q a")
    case True
    with Cons.prems have "filter P (f a) \<noteq> []" by simp
    then have "1 \<le> length (filter P (f a))" by (cases "filter P (f a)") auto
    with IH True show ?thesis by simp
  next
    case False with IH show ?thesis by simp
  qed
qed







lemma checkin_rejected:
  assumes "q_name req \<noteq> []" and "q_email req \<noteq> []" and "q_hostName req \<noteq> []"
      and "q_idCardNumber req \<noteq> []"
      and "resolve_host_id coll None d caller (q_hostName req) = Inl reply"
  shows "checkin coll now None d caller req = (reply, d)"
  using assms by (simp add: checkin_def beginTransaction_def rollback_self)

lemma like_percent:
  "like coll (CHR ''%'' # rest) s = (\<exists>pre post. s = pre @ post \<and> like coll rest post)"
proof (induction s)
  case Nil
  show ?case by simp
next
  case (Cons c cs)
  have "like coll (CHR ''%'' # rest) (c # cs)
          = (like coll rest (c # cs) \<or> like coll (CHR ''%'' # rest) cs)"
    by simp
  also have "\<dots> = (like coll rest (c # cs) \<or> (\<exists>pre post. cs = pre @ post \<and> like coll rest post))"
    using Cons.IH by simp
  also have "\<dots> = (\<exists>pre post. c # cs = pre @ post \<and> like coll rest post)"
    by (auto simp: Cons_eq_append_conv)
  finally show ?case .
qed

lemma like_literal:
  assumes "wildcard_free p"
  shows "like coll (p @ rest) s
           = (\<exists>mid post. s = mid @ post \<and> list_all2 (\<lambda>a b. coll [a] = coll [b]) p mid
                \<and> like coll rest post)"
  using assms
proof (induction p arbitrary: s)
  case Nil
  show ?case by simp
next
  case (Cons a p)
  then have a: "a \<noteq> CHR ''%''" "a \<noteq> CHR ''_''" "a \<noteq> CHR 0x5C" and p: "wildcard_free p"
    by (simp_all add: wildcard_free_def)
  show ?case
  proof (cases s)
    case Nil
    with a show ?thesis by simp
  next
    case (Cons c cs)
    have "like coll ((a # p) @ rest) (c # cs) = (coll [a] = coll [c] \<and> like coll (p @ rest) cs)"
      using a by simp
    also have "\<dots> = (coll [a] = coll [c]
          \<and> (\<exists>mid post. cs = mid @ post \<and> list_all2 (\<lambda>a b. coll [a] = coll [b]) p mid
                \<and> like coll rest post))"
      using Cons.IH [OF p] by simp
    also have "\<dots> = (\<exists>mid post. c # cs = mid @ post
                \<and> list_all2 (\<lambda>a b. coll [a] = coll [b]) (a # p) mid \<and> like coll rest post)"
      by (auto simp: list_all2_Cons1 Cons_eq_append_conv)
    finally show ?thesis using Cons by simp
  qed
qed

lemma like_contains:
  assumes "wildcard_free p"
  shows "like coll (''%'' @ p @ ''%'') s
           = (\<exists>pre mid post. s = pre @ mid @ post \<and> list_all2 (\<lambda>a b. coll [a] = coll [b]) p mid)"
proof -
  have all: "like coll ''%'' t" for t
    using like_percent [of coll "[]" t] by simp
  have "like coll (''%'' @ p @ ''%'') s = (\<exists>pre post. s = pre @ post \<and> like coll (p @ ''%'') post)"
    using like_percent [of coll "p @ ''%''" s] by simp
  also have "\<dots> = (\<exists>pre mid post. s = pre @ mid @ post
                      \<and> list_all2 (\<lambda>a b. coll [a] = coll [b]) p mid)"
    unfolding like_literal [OF assms] using all by (auto simp del: like.simps)
  finally show ?thesis .
qed

lemma conditions_all:
  "list_all (\<lambda>c. c (v, vis, h)) (conditions coll f)
     = ((\<forall>i. f_hostId f = Some i \<longrightarrow> v_host_id v = i)
        \<and> (\<forall>s. f_startDate f = Some s \<longrightarrow> s \<le> DATE (v_check_in_time v))
        \<and> (\<forall>e. f_endDate f = Some e \<longrightarrow> DATE (v_check_in_time v) \<le> e)
        \<and> (f_hostName f \<noteq> [] \<longrightarrow> like coll (''%'' @ f_hostName f @ ''%'') (u_name h))
        \<and> (f_visitorName f \<noteq> [] \<longrightarrow> like coll (''%'' @ f_visitorName f @ ''%'') (vis_name vis)))"
  by (cases "f_hostId f"; cases "f_startDate f"; cases "f_endDate f")
     (simp_all add: conditions_def)

lemma order_by_props:
  "set (order_by_check_in_time_desc rows) = set rows"
  "distinct (order_by_check_in_time_desc rows) = distinct rows"
  "mset (order_by_check_in_time_desc rows) = mset rows"
  "sorted_wrt (\<lambda>a b. v_check_in_time (fst b) \<le> v_check_in_time (fst a))
     (order_by_check_in_time_desc rows)"
proof -
  show "set (order_by_check_in_time_desc rows) = set rows"
    by (simp add: order_by_check_in_time_desc_def)
  show "distinct (order_by_check_in_time_desc rows) = distinct rows"
    by (simp add: order_by_check_in_time_desc_def)
  show "mset (order_by_check_in_time_desc rows) = mset rows"
    by (simp add: order_by_check_in_time_desc_def)
  have "sorted (map (\<lambda>(v, vis, h). - int (v_check_in_time v))
                  (order_by_check_in_time_desc rows))"
    unfolding order_by_check_in_time_desc_def by (rule sorted_sort_key)
  then show "sorted_wrt (\<lambda>a b. v_check_in_time (fst b) \<le> v_check_in_time (fst a))
     (order_by_check_in_time_desc rows)"
    by (simp add: sorted_map case_prod_unfold)
qed

lemma length_filter_mono:
  assumes "\<And>x. x \<in> set xs \<Longrightarrow> P x \<Longrightarrow> Q x"
  shows "length (filter P xs) \<le> length (filter Q xs)"
  using assms by (induction xs) auto

lemma checkin_phases:
  "checkin coll now fault d caller req =
     (case checkin_checks coll fault d caller req of
        Inl reply \<Rightarrow> (reply, d)
      | Inr host_id \<Rightarrow> checkin_writes coll now fault d req host_id)"
  by (simp add: checkin_def checkin_checks_def checkin_writes_def Let_def beginTransaction_def
        rollback_self split: sum.splits list.splits)

text \<open>
  When no two requests overlap, every state that is reached has, for every visitor
  email and company name, at most one visit row that is not checked out, belongs to a
  visitor row with that email and has a host of that company, be the email and the
  company compared under the collation or character by character; the duplicate
  check of the check-in handler returns at most one row there. When a visit of the
  submitted email is still open with a host of the company of the resolved host, the
  check-in is answered with 409 and the state stays as it was.
\<close>

lemma serial_one_active_visit:
  assumes "reachable coll d"
  shows "length [v \<leftarrow> visits d. v_check_out_time v = None
            \<and> (\<exists>vis \<in> set (visitors d). vis_id vis = v_visitor_id v
                   \<and> sql_eq coll (Some (vis_email vis)) (Some email))
            \<and> (\<exists>h \<in> set (users d). u_id h = v_host_id v
                   \<and> sql_eq coll (u_company_name h) (Some company))] \<le> 1
       \<and> length [v \<leftarrow> visits d. v_check_out_time v = None
            \<and> (\<exists>vis \<in> set (visitors d). vis_id vis = v_visitor_id v \<and> vis_email vis = email)
            \<and> (\<exists>h \<in> set (users d). u_id h = v_host_id v
                   \<and> u_company_name h = Some company)] \<le> 1
       \<and> length (active_visits coll d email (Some company)) \<le> 1
       \<and> (q_name req \<noteq> [] \<and> q_email req \<noteq> [] \<and> q_hostName req \<noteq> [] \<and> q_idCardNumber req \<noteq> []
          \<and> resolve_host_id coll None d caller (q_hostName req) = Inr host_id
          \<and> h \<in> set (users d) \<and> u_id h = host_id
          \<and> v \<in> set (visits d) \<and> vis \<in> set (visitors d) \<and> h' \<in> set (users d)
          \<and> v_visitor_id v = vis_id vis \<and> v_host_id v = u_id h'
          \<and> v_check_out_time v = None
          \<and> sql_eq coll (Some (vis_email vis)) (Some (q_email req))
          \<and> sql_eq coll (u_company_name h') (u_company_name h)
          \<longrightarrow> (\<exists>c. u_company_name h = Some c
                \<and> checkin coll now None d caller req
                    = (Reply 409 (Message (''This visitor is already checked in to '' @ c
                         @ '' and has not checked out yet. Please check out first before checking in again to the same company.'')),
                       d)))"
proof (intro conjI impI)
  from assms have inv: "keys_ok d" "one_active coll d" using reachable_inv by blast+
  show q: "length (active_visits coll d email (Some company)) \<le> 1"
    using inv(2) by (simp add: one_active_def)
  let ?Q = "\<lambda>v. v_check_out_time v = None
            \<and> (\<exists>vis \<in> set (visitors d). vis_id vis = v_visitor_id v
                   \<and> sql_eq coll (Some (vis_email vis)) (Some email))
            \<and> (\<exists>h \<in> set (users d). u_id h = v_host_id v
                   \<and> sql_eq coll (u_company_name h) (Some company))"
  have "length (filter ?Q (visits d))
          \<le> length (filter (is_active coll email (Some company))
                (concat (map (partners (users d) (visitors d)) (visits d))))"
  proof (rule length_filter_concat_ge)
    fix v assume "v \<in> set (visits d)" and "?Q v"
    then obtain vis h where "vis \<in> set (visitors d)" "h \<in> set (users d)"
        "vis_id vis = v_visitor_id v" "u_id h = v_host_id v"
        "is_active coll email (Some company) (v, vis, h)"
      by (auto simp: is_active_def)
    then have "(v, vis, h) \<in> set (filter (is_active coll email (Some company))
                                  (partners (users d) (visitors d) v))"
      by (auto simp: partners_def)
    then show "filter (is_active coll email (Some company)) (partners (users d) (visitors d) v) \<noteq> []"
      by (metis empty_iff list.set(1))
  qed
  with q show rows: "length (filter ?Q (visits d)) \<le> 1"
    by (simp add: active_visits_filter joined_partners)
  have "length [v \<leftarrow> visits d. v_check_out_time v = None
            \<and> (\<exists>vis \<in> set (visitors d). vis_id vis = v_visitor_id v \<and> vis_email vis = email)
            \<and> (\<exists>h \<in> set (users d). u_id h = v_host_id v
                   \<and> u_company_name h = Some company)]
          \<le> length (filter ?Q (visits d))"
    by (rule length_filter_mono) auto
  with rows show "length [v \<leftarrow> visits d. v_check_out_time v = None
            \<and> (\<exists>vis \<in> set (visitors d). vis_id vis = v_visitor_id v \<and> vis_email vis = email)
            \<and> (\<exists>h \<in> set (users d). u_id h = v_host_id v
                   \<and> u_company_name h = Some company)] \<le> 1"
    by linarith
next
  assume a: "q_name req \<noteq> [] \<and> q_email req \<noteq> [] \<and> q_hostName req \<noteq> [] \<and> q_idCardNumber req \<noteq> []
          \<and> resolve_host_id coll None d caller (q_hostName req) = Inr host_id
          \<and> h \<in> set (users d) \<and> u_id h = host_id
          \<and> v \<in> set (visits d) \<and> vis \<in> set (visitors d) \<and> h' \<in> set (users d)
          \<and> v_visitor_id v = vis_id vis \<and> v_host_id v = u_id h'
          \<and> v_check_out_time v = None
          \<and> sql_eq coll (Some (vis_email vis)) (Some (q_email req))
          \<and> sql_eq coll (u_company_name h') (u_company_name h)"
  from assms have "keys_ok d" using reachable_inv by blast
  then have "distinct (map u_id (users d))" by (simp add: keys_ok_def)
  with a have hrow: "[u \<leftarrow> users d. u_id u = host_id] = [h]"
    using filter_id_unique [of u_id "users d" h] by auto
  from a have "(v, vis, h') \<in> set (joined d)" by (simp add: set_joined)
  moreover from a have "is_active coll (q_email req) (u_company_name h) (v, vis, h')"
    by (simp add: is_active_def)
  ultimately have "active_visits coll d (q_email req) (u_company_name h) \<noteq> []"
    unfolding active_visits_empty_iff by blast
  with a hrow have r: "checkin coll now None d caller req = (already_checked_in (u_company_name h), d)"
    by (intro checkin_conflict [where host_id = host_id and rest = "[]"]) simp_all
  from a obtain c where c: "u_company_name h = Some c"
    by (cases "u_company_name h") auto
  with r show "\<exists>c. u_company_name h = Some c
                \<and> checkin coll now None d caller req
                    = (Reply 409 (Message (''This visitor is already checked in to '' @ c
                         @ '' and has not checked out yet. Please check out first before checking in again to the same company.'')),
                       d)"
    by (simp add: already_checked_in_def template_def)
qed

lemma serial_one_active_visit_example:
  "reachable binary db1
   \<and> (q_name (alice_req ''Bob'' None) \<noteq> [] \<and> q_email (alice_req ''Bob'' None) \<noteq> []
      \<and> q_hostName (alice_req ''Bob'' None) \<noteq> [] \<and> q_idCardNumber (alice_req ''Bob'' None) \<noteq> []
      \<and> resolve_host_id binary None db1 \<lparr>p_id = 1, p_role = Admin\<rparr> (q_hostName (alice_req ''Bob'' None)) = Inr 2
      \<and> bob \<in> set (users db1) \<and> u_id bob = 2
      \<and> alice_visit \<in> set (visits db1) \<and> alice_visitor \<in> set (visitors db1) \<and> bob \<in> set (users db1)
      \<and> v_visitor_id alice_visit = vis_id alice_visitor \<and> v_host_id alice_visit = u_id bob
      \<and> v_check_out_time alice_visit = None
      \<and> sql_eq binary (Some (vis_email alice_visitor)) (Some (q_email (alice_req ''Bob'' None)))
      \<and> sql_eq binary (u_company_name bob) (u_company_name bob))
   \<and> length (active_visits binary db1 ''alice@x.com'' (Some ''Acme'')) \<le> 1
   \<and> checkin binary 200 None db1 \<lparr>p_id = 1, p_role = Admin\<rparr> (alice_req ''Bob'' None)
        = (Reply 409 (Message ''This visitor is already checked in to Acme and has not checked out yet. Please check out first before checking in again to the same company.''),
           db1)"
proof -
  have "installed db0" by code_simp
  then have "reachable binary db0" by (rule reach_installed)
  then have r: "reachable binary db1" unfolding db1_def by (rule reach_checkin)
  have h: "q_name (alice_req ''Bob'' None) \<noteq> [] \<and> q_email (alice_req ''Bob'' None) \<noteq> []
      \<and> q_hostName (alice_req ''Bob'' None) \<noteq> [] \<and> q_idCardNumber (alice_req ''Bob'' None) \<noteq> []
      \<and> resolve_host_id binary None db1 \<lparr>p_id = 1, p_role = Admin\<rparr> (q_hostName (alice_req ''Bob'' None)) = Inr 2
      \<and> bob \<in> set (users db1) \<and> u_id bob = 2
      \<and> alice_visit \<in> set (visits db1) \<and> alice_visitor \<in> set (visitors db1) \<and> bob \<in> set (users db1)
      \<and> v_visitor_id alice_visit = vis_id alice_visitor \<and> v_host_id alice_visit = u_id bob
      \<and> v_check_out_time alice_visit = None
      \<and> sql_eq binary (Some (vis_email alice_visitor)) (Some (q_email (alice_req ''Bob'' None)))
      \<and> sql_eq binary (u_company_name bob) (u_company_name bob)"
    unfolding db1_def by code_simp
  have c: "u_company_name bob = Some ''Acme''" by code_simp
  note t = serial_one_active_visit [OF r, of "''alice@x.com''" "''Acme''" "alice_req ''Bob'' None"
      "\<lparr>p_id = 1, p_role = Admin\<rparr>" 2 bob alice_visit alice_visitor bob 200]
  from t have "length (active_visits binary db1 ''alice@x.com'' (Some ''Acme'')) \<le> 1" by blast
  moreover from t h obtain k where "u_company_name bob = Some k"
      "checkin binary 200 None db1 \<lparr>p_id = 1, p_role = Admin\<rparr> (alice_req ''Bob'' None)
        = (Reply 409 (Message (''This visitor is already checked in to '' @ k
             @ '' and has not checked out yet. Please check out first before checking in again to the same company.'')),
           db1)" by blast
  ultimately show ?thesis using r h c by simp
qed

text \<open>The state that the two overlapping check-ins reach is reached by no run without overlap.\<close>

lemma db_both_needs_overlap: "\<not> reachable binary db_both"
proof
  assume "reachable binary db_both"
  from serial_one_active_visit [OF this, of "''alice@x.com''" "''Acme''"]
  have "length (active_visits binary db_both ''alice@x.com'' (Some ''Acme'')) \<le> 1" by blast
  moreover have "active_visits binary db_both ''alice@x.com'' (Some ''Acme'') = [1, 2]"
    unfolding db_both_def db_first_def by code_simp
  ultimately show False by simp
qed

section \<open>The claims\<close>

text \<open>
  C1. The code breaks the invariant when two check-ins overlap. Bob and Ann both
  check Alice in with Bob on the freshly installed \<open>db0\<close>. Each request passes its
  tests, the duplicate check among them, before the other has written; then both
  write and commit. The state that is reached has two visits of Alice's email that
  are not checked out, both with the Acme host Bob, and the duplicate check returns
  both.
\<close>

theorem overlapping_checkins_leave_two_open_visits:
  "checkin_checks binary None db0 \<lparr>p_id = 2, p_role = Host\<rparr> (alice_req ''bob'' (Some ''Meeting''))
     = Inr 2
   \<and> checkin_checks binary None db0 \<lparr>p_id = 1, p_role = Admin\<rparr> (alice_req ''Bob'' (Some ''Again''))
     = Inr 2
   \<and> overlapping binary db_both []
   \<and> active_visits binary db_both ''alice@x.com'' (Some ''Acme'') = [1, 2]
   \<and> [(v_id v, v_visitor_id v, v_host_id v, v_check_out_time v). v \<leftarrow> visits db_both]
       = [(1, 1, 2, None), (2, 2, 2, None)]
   \<and> [(vis_id vis, vis_email vis). vis \<leftarrow> visitors db_both]
       = [(1, ''alice@x.com''), (2, ''alice@x.com'')]
   \<and> [u_company_name u. u \<leftarrow> users db_both, u_id u = 2] = [Some ''Acme'']"
proof -
  let ?a = "alice_req ''bob'' (Some ''Meeting'')" and ?b = "alice_req ''Bob'' (Some ''Again'')"
  have "installed db0" by code_simp
  then have o0: "overlapping binary db0 []" by (rule over_installed)
  have c1: "checkin_checks binary None db0 \<lparr>p_id = 2, p_role = Host\<rparr> ?a = Inr 2"
    by code_simp
  have c2: "checkin_checks binary None db0 \<lparr>p_id = 1, p_role = Admin\<rparr> ?b = Inr 2"
    by code_simp
  from over_checks [OF o0 c1] have o1: "overlapping binary db0 [(?a, 2)]" by simp
  from over_checks [OF o1 c2] have o2: "overlapping binary db0 [(?a, 2), (?b, 2)]" by simp
  have "(?a, 2) \<in> set [(?a, 2), (?b, 2)]" by simp
  from over_writes [OF o2 this, of 100 None]
  have o3: "overlapping binary db_first [(?b, 2)]" by (simp add: db_first_def)
  have "(?b, 2) \<in> set [(?b, 2)]" by simp
  from over_writes [OF o3 this, of 101 None]
  have o4: "overlapping binary db_both []" by (simp add: db_both_def)
  have e: "active_visits binary db_both ''alice@x.com'' (Some ''Acme'') = [1, 2]"
    "[(v_id v, v_visitor_id v, v_host_id v, v_check_out_time v). v \<leftarrow> visits db_both]
       = [(1, 1, 2, None), (2, 2, 2, None)]"
    "[(vis_id vis, vis_email vis). vis \<leftarrow> visitors db_both]
       = [(1, ''alice@x.com''), (2, ''alice@x.com'')]"
    "[u_company_name u. u \<leftarrow> users db_both, u_id u = 2] = [Some ''Acme'']"
    unfolding db_both_def db_first_def by code_simp+
  show ?thesis by (intro conjI c1 c2 o4 e)
qed

text \<open>
  C2. Whatever the request and wherever the database fails, the check-in handler leaves
  one of two states behind: after the reply 201 the \<open>visitors\<close> table has exactly one
  more row, the submitted visitor, and the \<open>visits\<close> table exactly one more row,
  which refers to it; after any other outcome both tables are as they were. The other
  tables never change.
\<close>

theorem checkin_atomic:
  assumes "checkin coll now fault d caller req = (r, d')"
  shows "users d' = users d \<and> companies d' = companies d
       \<and> ((\<exists>visit_id nv. r = Reply 201 (CheckedIn visit_id)
              \<and> visitors d' = visitors d @ [new_visitor (next_visitor_id d) req]
              \<and> visits d' = visits d @ [nv]
              \<and> v_id nv = visit_id \<and> v_visitor_id nv = next_visitor_id d
              \<and> v_check_in_time nv = now \<and> v_check_out_time nv = None)
          \<or> ((\<forall>visit_id. r \<noteq> Reply 201 (CheckedIn visit_id))
              \<and> visitors d' = visitors d \<and> visits d' = visits d))"
  using checkin_cases [OF assms]
proof (elim disjE conjE exE)
  assume "same_tables d d'" and "\<forall>i. r \<noteq> Reply 201 (CheckedIn i)"
  then show ?thesis by (simp add: same_tables_def)
next
  fix host_id h rest reason
  assume "r = Reply 201 (CheckedIn (next_visit_id d))"
     and "d' = d\<lparr>visitors := visitors d @ [new_visitor (next_visitor_id d) req],
                    next_visitor_id := Suc (next_visitor_id d),
                    visits := visits d @
                      [\<lparr>v_id = next_visit_id d, v_visitor_id = next_visitor_id d,
                        v_host_id = host_id, v_reason = reason,
                        v_itemsCarried = q_itemsCarried req, v_check_in_time = now,
                        v_check_out_time = None\<rparr>],
                    next_visit_id := Suc (next_visit_id d)\<rparr>"
  then show ?thesis by simp
qed

theorem checkin_atomic_witness:
  "checkin binary 100 None db0 \<lparr>p_id = 2, p_role = Host\<rparr> (alice_req ''bob'' None)
     = (tx_failed, db0\<lparr>next_visitor_id := 2\<rparr>)
   \<and> insert_visitor binary None db0 (alice_req ''bob'' None)
     = Inr (1, db0\<lparr>visitors := [new_visitor 1 (alice_req ''bob'' None)], next_visitor_id := 2\<rparr>)
   \<and> users (db0\<lparr>next_visitor_id := 2\<rparr>) = users db0
   \<and> companies (db0\<lparr>next_visitor_id := 2\<rparr>) = companies db0
   \<and> visitors (db0\<lparr>next_visitor_id := 2\<rparr>) = visitors db0
   \<and> visits (db0\<lparr>next_visitor_id := 2\<rparr>) = visits db0"
proof -
  have h: "checkin binary 100 None db0 \<lparr>p_id = 2, p_role = Host\<rparr> (alice_req ''bob'' None)
     = (tx_failed, db0\<lparr>next_visitor_id := 2\<rparr>)"
    by code_simp
  have i: "insert_visitor binary None db0 (alice_req ''bob'' None)
     = Inr (1, db0\<lparr>visitors := [new_visitor 1 (alice_req ''bob'' None)], next_visitor_id := 2\<rparr>)"
    by code_simp
  have n: "\<forall>visit_id. tx_failed \<noteq> Reply 201 (CheckedIn visit_id)"
    by (simp add: tx_failed_def)
  from checkin_atomic [OF h] n
  have "users (db0\<lparr>next_visitor_id := 2\<rparr>) = users db0
   \<and> companies (db0\<lparr>next_visitor_id := 2\<rparr>) = companies db0
   \<and> visitors (db0\<lparr>next_visitor_id := 2\<rparr>) = visitors db0
   \<and> visits (db0\<lparr>next_visitor_id := 2\<rparr>) = visits db0"
    by blast
  with h i show ?thesis by blast
qed




text \<open>
  C4. A host who asks to check out a visit of another host gets 403, and the state,
  with the visit's \<open>check_out_time\<close>, stays as it was.
\<close>

theorem checkout_host_forbidden:
  assumes "p_role caller = Host" and "fault \<noteq> Some SelectVisitHost"
      and "distinct (map v_id (visits d))"
      and "v \<in> set (visits d)" and "v_id v = i" and "v_host_id v \<noteq> p_id caller"
  shows "checkout now fault d caller i
           = (Reply 403 (Message ''Hosts can only check out their own visitors.''), d)"
proof -
  have "[w \<leftarrow> visits d. v_id w = i] = [v]"
    using filter_id_unique [of v_id "visits d" v] assms by simp
  with assms show ?thesis by (simp add: checkout_def)
qed

theorem checkout_host_forbidden_witness:
  "(p_role \<lparr>p_id = 4, p_role = Host\<rparr> = Host \<and> None \<noteq> Some SelectVisitHost
    \<and> distinct (map v_id (visits db1)) \<and> alice_visit \<in> set (visits db1)
    \<and> v_id alice_visit = 1 \<and> v_host_id alice_visit \<noteq> p_id \<lparr>p_id = 4, p_role = Host\<rparr>)
   \<and> checkout 150 None db1 \<lparr>p_id = 4, p_role = Host\<rparr> 1
       = (Reply 403 (Message ''Hosts can only check out their own visitors.''), db1)"
proof -
  have h: "p_role \<lparr>p_id = 4, p_role = Host\<rparr> = Host" "None \<noteq> Some SelectVisitHost"
    "distinct (map v_id (visits db1))" "alice_visit \<in> set (visits db1)"
    "v_id alice_visit = 1" "v_host_id alice_visit \<noteq> p_id \<lparr>p_id = 4, p_role = Host\<rparr>"
    unfolding db1_def by code_simp+
  from checkout_host_forbidden [OF h, of 150] h show ?thesis by blast
qed

text \<open>
  C5. On the migrated schema, a check-in whose host resolves succeeds when every open
  visit of the submitted email is with a host of a company other than the resolved
  host's: open visits at other companies do not stand in the way.
\<close>

theorem checkin_other_company_succeeds:
  assumes "q_name req \<noteq> []" and "q_email req \<noteq> []" and "q_hostName req \<noteq> []"
      and "q_idCardNumber req \<noteq> []" and "q_reason req = Some reason"
      and "\<not> visitors_email_index d"
      and "resolve_host_id coll None d caller (q_hostName req) = Inr host_id"
      and "[u \<leftarrow> users d. u_id u = host_id] = h # rest"
      and "\<forall>(v, vis, h') \<in> set (joined d).
              sql_eq coll (Some (vis_email vis)) (Some (q_email req)) \<and> v_check_out_time v = None
              \<longrightarrow> \<not> sql_eq coll (u_company_name h') (u_company_name h)"
  shows "fst (checkin coll now None d caller req) = Reply 201 (CheckedIn (next_visit_id d))"
proof -
  have "active_visits coll d (q_email req) (u_company_name h) = []"
    unfolding active_visits_empty_iff using assms(9) by (auto simp: is_active_def)
  with assms(1-8) show ?thesis
    by (simp add: checkin_succeeds [where host_id = host_id and h = h and rest = rest])
qed

theorem checkin_other_company_succeeds_witness:
  "(q_name (alice_req ''Carol'' (Some ''Audit'')) \<noteq> []
    \<and> q_email (alice_req ''Carol'' (Some ''Audit'')) \<noteq> []
    \<and> q_hostName (alice_req ''Carol'' (Some ''Audit'')) \<noteq> []
    \<and> q_idCardNumber (alice_req ''Carol'' (Some ''Audit'')) \<noteq> []
    \<and> q_reason (alice_req ''Carol'' (Some ''Audit'')) = Some ''Audit''
    \<and> \<not> visitors_email_index db1
    \<and> resolve_host_id binary None db1 \<lparr>p_id = 3, p_role = Admin\<rparr>
          (q_hostName (alice_req ''Carol'' (Some ''Audit''))) = Inr 4
    \<and> [u \<leftarrow> users db1. u_id u = 4] = carol # []
    \<and> active_visits binary db1 ''alice@x.com'' (Some ''Acme'') = [1]
    \<and> active_visits binary db1 ''alice@x.com'' (Some ''Globex'') = [])
   \<and> fst (checkin binary 200 None db1 \<lparr>p_id = 3, p_role = Admin\<rparr> (alice_req ''Carol'' (Some ''Audit'')))
       = Reply 201 (CheckedIn (next_visit_id db1))"
proof -
  have h: "q_name (alice_req ''Carol'' (Some ''Audit'')) \<noteq> []"
    "q_email (alice_req ''Carol'' (Some ''Audit'')) \<noteq> []"
    "q_hostName (alice_req ''Carol'' (Some ''Audit'')) \<noteq> []"
    "q_idCardNumber (alice_req ''Carol'' (Some ''Audit'')) \<noteq> []"
    "q_reason (alice_req ''Carol'' (Some ''Audit'')) = Some ''Audit''"
    "\<not> visitors_email_index db1"
    "resolve_host_id binary None db1 \<lparr>p_id = 3, p_role = Admin\<rparr>
          (q_hostName (alice_req ''Carol'' (Some ''Audit''))) = Inr 4"
    "[u \<leftarrow> users db1. u_id u = 4] = carol # []"
    "\<forall>(v, vis, h') \<in> set (joined db1).
              sql_eq binary (Some (vis_email vis)) (Some (q_email (alice_req ''Carol'' (Some ''Audit''))))
              \<and> v_check_out_time v = None
              \<longrightarrow> \<not> sql_eq binary (u_company_name h') (u_company_name carol)"
    unfolding db1_def by code_simp+
  have a: "active_visits binary db1 ''alice@x.com'' (Some ''Acme'') = [1]"
    "active_visits binary db1 ''alice@x.com'' (Some ''Globex'') = []"
    unfolding db1_def by code_simp+
  from checkin_other_company_succeeds [OF h, of 200] h(1-8) a show ?thesis by blast
qed

text \<open>
  C8. On the migrated schema, a check-in that passes the host resolution and the
  duplicate check appends to \<open>visitors\<close> a new row under the next id, each of whose
  columns holds the submitted field of its name, and leaves the rows that were there
  untouched, whatever emails they hold.
\<close>

theorem checkin_always_new_visitor:
  assumes "q_name req \<noteq> []" and "q_email req \<noteq> []" and "q_hostName req \<noteq> []"
      and "q_idCardNumber req \<noteq> []" and "q_reason req = Some reason"
      and "\<not> visitors_email_index d"
      and "resolve_host_id coll None d caller (q_hostName req) = Inr host_id"
      and "[u \<leftarrow> users d. u_id u = host_id] = h # rest"
      and "active_visits coll d (q_email req) (u_company_name h) = []"
  shows "fst (checkin coll now None d caller req) = Reply 201 (CheckedIn (next_visit_id d))
       \<and> visitors (snd (checkin coll now None d caller req))
           = visitors d @
               [\<lparr>vis_id = next_visitor_id d, vis_name = q_name req, vis_email = q_email req,
                 vis_phone = q_phone req, vis_designation = q_designation req,
                 vis_company = q_company req, vis_companyTel = q_companyTel req,
                 vis_website = q_website req, vis_address = q_address req,
                 vis_photo = q_photo req, vis_idCardPhoto = q_idCardPhoto req,
                 vis_idCardNumber = Some (q_idCardNumber req)\<rparr>]"
  using assms
  by (simp add: checkin_succeeds [where host_id = host_id and h = h and rest = rest]
        new_visitor_def)

theorem checkin_always_new_visitor_witness:
  "(q_name (alice_req ''bob'' (Some ''Again'')) \<noteq> []
    \<and> q_email (alice_req ''bob'' (Some ''Again'')) \<noteq> []
    \<and> q_hostName (alice_req ''bob'' (Some ''Again'')) \<noteq> []
    \<and> q_idCardNumber (alice_req ''bob'' (Some ''Again'')) \<noteq> []
    \<and> q_reason (alice_req ''bob'' (Some ''Again'')) = Some ''Again''
    \<and> \<not> visitors_email_index db2
    \<and> resolve_host_id binary None db2 \<lparr>p_id = 2, p_role = Host\<rparr>
          (q_hostName (alice_req ''bob'' (Some ''Again''))) = Inr 2
    \<and> [u \<leftarrow> users db2. u_id u = 2] = bob # []
    \<and> active_visits binary db2 (q_email (alice_req ''bob'' (Some ''Again''))) (u_company_name bob) = [])
   \<and> visitors db2
       = [\<lparr>vis_id = 1, vis_name = ''Alice'', vis_email = ''alice@x.com'', vis_phone = None,
           vis_designation = None, vis_company = None, vis_companyTel = None,
           vis_website = None, vis_address = None, vis_photo = None,
           vis_idCardPhoto = None, vis_idCardNumber = Some ''ID-1''\<rparr>]
   \<and> visitors (snd (checkin binary 300 None db2 \<lparr>p_id = 2, p_role = Host\<rparr>
                       (alice_req ''bob'' (Some ''Again''))))
       = [\<lparr>vis_id = 1, vis_name = ''Alice'', vis_email = ''alice@x.com'', vis_phone = None,
           vis_designation = None, vis_company = None, vis_companyTel = None,
           vis_website = None, vis_address = None, vis_photo = None,
           vis_idCardPhoto = None, vis_idCardNumber = Some ''ID-1''\<rparr>,
          \<lparr>vis_id = 2, vis_name = ''Alice'', vis_email = ''alice@x.com'', vis_phone = None,
           vis_designation = None, vis_company = None, vis_companyTel = None,
           vis_website = None, vis_address = None, vis_photo = None,
           vis_idCardPhoto = None, vis_idCardNumber = Some ''ID-1''\<rparr>]"
proof -
  have h: "q_name (alice_req ''bob'' (Some ''Again'')) \<noteq> []"
    "q_email (alice_req ''bob'' (Some ''Again'')) \<noteq> []"
    "q_hostName (alice_req ''bob'' (Some ''Again'')) \<noteq> []"
    "q_idCardNumber (alice_req ''bob'' (Some ''Again'')) \<noteq> []"
    "q_reason (alice_req ''bob'' (Some ''Again'')) = Some ''Again''"
    "\<not> visitors_email_index db2"
    "resolve_host_id binary None db2 \<lparr>p_id = 2, p_role = Host\<rparr>
          (q_hostName (alice_req ''bob'' (Some ''Again''))) = Inr 2"
    "[u \<leftarrow> users db2. u_id u = 2] = bob # []"
    "active_visits binary db2 (q_email (alice_req ''bob'' (Some ''Again''))) (u_company_name bob) = []"
    unfolding db2_def db1_def by code_simp+
  have e: "visitors db2
       = [\<lparr>vis_id = 1, vis_name = ''Alice'', vis_email = ''alice@x.com'', vis_phone = None,
           vis_designation = None, vis_company = None, vis_companyTel = None,
           vis_website = None, vis_address = None, vis_photo = None,
           vis_idCardPhoto = None, vis_idCardNumber = Some ''ID-1''\<rparr>]"
    unfolding db2_def db1_def by code_simp
  have n: "next_visitor_id db2 = 2"
    unfolding db2_def db1_def by code_simp
  have q: "q_name (alice_req ''bob'' (Some ''Again'')) = ''Alice''"
    "q_email (alice_req ''bob'' (Some ''Again'')) = ''alice@x.com''"
    "q_phone (alice_req ''bob'' (Some ''Again'')) = None"
    "q_designation (alice_req ''bob'' (Some ''Again'')) = None"
    "q_company (alice_req ''bob'' (Some ''Again'')) = None"
    "q_companyTel (alice_req ''bob'' (Some ''Again'')) = None"
    "q_website (alice_req ''bob'' (Some ''Again'')) = None"
    "q_address (alice_req ''bob'' (Some ''Again'')) = None"
    "q_photo (alice_req ''bob'' (Some ''Again'')) = None"
    "q_idCardPhoto (alice_req ''bob'' (Some ''Again'')) = None"
    "q_idCardNumber (alice_req ''bob'' (Some ''Again'')) = ''ID-1''"
    by (simp_all add: alice_req_def)
  from checkin_always_new_visitor [OF h, of 300]
  have "visitors (snd (checkin binary 300 None db2 \<lparr>p_id = 2, p_role = Host\<rparr>
                       (alice_req ''bob'' (Some ''Again''))))
       = [\<lparr>vis_id = 1, vis_name = ''Alice'', vis_email = ''alice@x.com'', vis_phone = None,
           vis_designation = None, vis_company = None, vis_companyTel = None,
           vis_website = None, vis_address = None, vis_photo = None,
           vis_idCardPhoto = None, vis_idCardNumber = Some ''ID-1''\<rparr>,
          \<lparr>vis_id = 2, vis_name = ''Alice'', vis_email = ''alice@x.com'', vis_phone = None,
           vis_designation = None, vis_company = None, vis_companyTel = None,
           vis_website = None, vis_address = None, vis_photo = None,
           vis_idCardPhoto = None, vis_idCardNumber = Some ''ID-1''\<rparr>]"
    by (simp only: e n q append.simps)
  with h e show ?thesis by blast
qed

text \<open>
  C9. An admin checks out any open visit: no condition on the company of the visit's
  host or of the admin is needed.
\<close>

theorem admin_checkout_any_company:
  assumes "p_role caller = Admin" and "v \<in> set (visits d)" and "v_id v = i"
      and "v_check_out_time v = None"
  shows "fst (checkout now None d caller i) = Reply 200 (Message ''Check-out successful.'')
       \<and> v\<lparr>v_check_out_time := Some now\<rparr> \<in> set (visits (snd (checkout now None d caller i)))"
proof -
  have "v \<in> set [w \<leftarrow> visits d. v_id w = i \<and> v_check_out_time w = None]"
    using assms by simp
  then have pos: "0 < length [w \<leftarrow> visits d. v_id w = i \<and> v_check_out_time w = None]"
    by (metis length_greater_0_conv empty_iff list.set(1))
  have "v\<lparr>v_check_out_time := Some now\<rparr>
          \<in> (\<lambda>w. if v_id w = i \<and> v_check_out_time w = None
                    then w\<lparr>v_check_out_time := Some now\<rparr> else w) ` set (visits d)"
    using assms(2,3,4) by (intro image_eqI [where x = v]) simp_all
  with pos assms(1) show ?thesis
    by (simp add: checkout_def update_checkout_def)
qed

theorem admin_checkout_any_company_witness:
  "(p_role \<lparr>p_id = 1, p_role = Admin\<rparr> = Admin
    \<and> \<lparr>v_id = 2, v_visitor_id = 2, v_host_id = 4, v_reason = ''Audit'',
         v_itemsCarried = None, v_check_in_time = 200, v_check_out_time = None\<rparr> \<in> set (visits db3)
    \<and> [u_company_name u. u \<leftarrow> users db3, u_id u = 4] = [Some ''Globex'']
    \<and> [u_company_name u. u \<leftarrow> users db3, u_id u = 1] = [Some ''Acme''])
   \<and> fst (checkout 300 None db3 \<lparr>p_id = 1, p_role = Admin\<rparr> 2)
       = Reply 200 (Message ''Check-out successful.'')
   \<and> \<lparr>v_id = 2, v_visitor_id = 2, v_host_id = 4, v_reason = ''Audit'',
         v_itemsCarried = None, v_check_in_time = 200, v_check_out_time = Some 300\<rparr>
       \<in> set (visits (snd (checkout 300 None db3 \<lparr>p_id = 1, p_role = Admin\<rparr> 2)))"
proof -
  let ?v = "\<lparr>v_id = 2, v_visitor_id = 2, v_host_id = 4, v_reason = ''Audit'',
         v_itemsCarried = None, v_check_in_time = 200, v_check_out_time = None\<rparr>"
  have h: "p_role \<lparr>p_id = 1, p_role = Admin\<rparr> = Admin" "?v \<in> set (visits db3)"
    "v_id ?v = 2" "v_check_out_time ?v = None"
    unfolding db3_def db1_def by code_simp+
  have c: "[u_company_name u. u \<leftarrow> users db3, u_id u = 4] = [Some ''Globex'']"
    "[u_company_name u. u \<leftarrow> users db3, u_id u = 1] = [Some ''Acme'']"
    unfolding db3_def db1_def by code_simp+
  from admin_checkout_any_company [OF h, of 300] h c show ?thesis by simp
qed

text \<open>
  C10. After the email and the password have matched, a host gets a token whether or
  not the account is verified, and a user of another role who is not verified gets
  403 and no token.
\<close>

theorem login_host_skips_verification:
  assumes "[u \<leftarrow> users d. sql_eq coll (Some (u_email u)) email] = user # others"
      and "password = Some (u_password user)"
  shows "(u_role user = Host \<longrightarrow>
           login coll None d email password
             = Reply 200 (LoggedIn \<lparr>p_id = u_id user, p_role = Host\<rparr>
                 \<lparr>i_id = u_id user, i_name = u_name user, i_email = u_email user,
                  i_role = Host, i_company_name = or_null (u_company_name user)\<rparr>))
       \<and> (u_role user \<noteq> Host \<and> \<not> u_is_verified user \<and> fault \<noteq> Some SelectUserByEmail \<longrightarrow>
           login coll fault d email password
             = Reply 403 (Message ''Please verify your email address before logging in.''))"
  using assms by (simp add: login_def)

theorem login_host_skips_verification_witness:
  "([u \<leftarrow> users db0. sql_eq binary (Some (u_email u)) (Some ''bob@acme.com'')] = bob # []
    \<and> Some ''pw2'' = Some (u_password bob) \<and> u_role bob = Host \<and> \<not> u_is_verified bob
    \<and> [u \<leftarrow> users db0. sql_eq binary (Some (u_email u)) (Some ''gus@globex.com'')] = globex_admin # []
    \<and> Some ''pw3'' = Some (u_password globex_admin)
    \<and> u_role globex_admin \<noteq> Host \<and> \<not> u_is_verified globex_admin \<and> None \<noteq> Some SelectUserByEmail)
   \<and> login binary None db0 (Some ''bob@acme.com'') (Some ''pw2'')
       = Reply 200 (LoggedIn \<lparr>p_id = 2, p_role = Host\<rparr>
           \<lparr>i_id = 2, i_name = ''Bob'', i_email = ''bob@acme.com'', i_role = Host,
            i_company_name = Some ''Acme''\<rparr>)
   \<and> login binary None db0 (Some ''gus@globex.com'') (Some ''pw3'')
       = Reply 403 (Message ''Please verify your email address before logging in.'')"
proof -
  have hb: "[u \<leftarrow> users db0. sql_eq binary (Some (u_email u)) (Some ''bob@acme.com'')] = bob # []"
    "Some ''pw2'' = Some (u_password bob)"
    by code_simp+
  have hg: "[u \<leftarrow> users db0. sql_eq binary (Some (u_email u)) (Some ''gus@globex.com'')]
              = globex_admin # []"
    "Some ''pw3'' = Some (u_password globex_admin)"
    by code_simp+
  have f: "u_role bob = Host" "\<not> u_is_verified bob" "u_role globex_admin \<noteq> Host"
    "\<not> u_is_verified globex_admin" "None \<noteq> Some SelectUserByEmail"
    by code_simp+
  have v: "u_id bob = 2" "u_name bob = ''Bob''" "u_email bob = ''bob@acme.com''"
    "or_null (u_company_name bob) = Some ''Acme''"
    by code_simp+
  from login_host_skips_verification [OF hb, of None] f v
  have 1: "login binary None db0 (Some ''bob@acme.com'') (Some ''pw2'')
       = Reply 200 (LoggedIn \<lparr>p_id = 2, p_role = Host\<rparr>
           \<lparr>i_id = 2, i_name = ''Bob'', i_email = ''bob@acme.com'', i_role = Host,
            i_company_name = Some ''Acme''\<rparr>)" by simp
  from login_host_skips_verification [OF hg, of None] f
  have 2: "login binary None db0 (Some ''gus@globex.com'') (Some ''pw3'')
       = Reply 403 (Message ''Please verify your email address before logging in.'')" by blast
  from 1 2 hb hg f show ?thesis by blast
qed

text \<open>
  C6 (as amended). In the check-in handler, with user ids unique: a host caller whose
  stored name equals the submitted host name up to case becomes the host of the visit,
  and otherwise the request is answered with 403; an admin caller whose own company
  name is set gets the submitted name resolved to a user of role host whose name
  equals it and whose company equals the admin's, both under the collation, and
  otherwise 404; an admin without a user row or without a company name gets 400.
\<close>

theorem host_id_resolution:
  assumes "distinct (map u_id (users d))"
      and "q_name req \<noteq> []" and "q_email req \<noteq> []" and "q_hostName req \<noteq> []"
      and "q_idCardNumber req \<noteq> []"
  shows "(p_role caller = Host \<and> own \<in> set (users d) \<and> u_id own = p_id caller
          \<and> toLowerCase (u_name own) = toLowerCase (q_hostName req)
          \<longrightarrow> resolve_host_id coll None d caller (q_hostName req) = Inr (p_id caller))
       \<and> (p_role caller = Host
          \<and> \<not> (\<exists>u \<in> set (users d). u_id u = p_id caller
                   \<and> toLowerCase (u_name u) = toLowerCase (q_hostName req))
          \<longrightarrow> checkin coll now None d caller req
                = (Reply 403 (Message ''Hosts can only check in visitors for themselves.''), d))
       \<and> (p_role caller = Admin \<and> own \<in> set (users d) \<and> u_id own = p_id caller
          \<and> truthy (u_company_name own)
          \<and> hostRow \<in> set (users d) \<and> sql_eq coll (Some (u_name hostRow)) (Some (q_hostName req))
          \<and> u_role hostRow = Host \<and> sql_eq coll (u_company_name hostRow) (u_company_name own)
          \<longrightarrow> (\<exists>u \<in> set (users d). sql_eq coll (Some (u_name u)) (Some (q_hostName req))
                  \<and> u_role u = Host \<and> sql_eq coll (u_company_name u) (u_company_name own)
                  \<and> resolve_host_id coll None d caller (q_hostName req) = Inr (u_id u)))
       \<and> (p_role caller = Admin \<and> own \<in> set (users d) \<and> u_id own = p_id caller
          \<and> truthy (u_company_name own)
          \<and> \<not> (\<exists>u \<in> set (users d). sql_eq coll (Some (u_name u)) (Some (q_hostName req))
                   \<and> u_role u = Host \<and> sql_eq coll (u_company_name u) (u_company_name own))
          \<longrightarrow> checkin coll now None d caller req
                = (Reply 404 (Message ''Host not found in your company.''), d))
       \<and> (p_role caller = Admin
          \<and> \<not> (\<exists>u \<in> set (users d). u_id u = p_id caller \<and> truthy (u_company_name u))
          \<longrightarrow> checkin coll now None d caller req
                = (Reply 400 (Message ''Admin company information not found.''), d))"
proof (intro conjI impI)
  assume a: "p_role caller = Host \<and> own \<in> set (users d) \<and> u_id own = p_id caller
          \<and> toLowerCase (u_name own) = toLowerCase (q_hostName req)"
  then have "[u \<leftarrow> users d. u_id u = p_id caller] = [own]"
    using filter_id_unique [of u_id "users d" own] assms(1) by simp
  with a show "resolve_host_id coll None d caller (q_hostName req) = Inr (p_id caller)"
    by (simp add: resolve_host_id_def)
next
  assume a: "p_role caller = Host
          \<and> \<not> (\<exists>u \<in> set (users d). u_id u = p_id caller
                   \<and> toLowerCase (u_name u) = toLowerCase (q_hostName req))"
  have "resolve_host_id coll None d caller (q_hostName req)
          = Inl (Reply 403 (Message ''Hosts can only check in visitors for themselves.''))"
  proof (cases "[u \<leftarrow> users d. u_id u = p_id caller]")
    case Nil
    with a show ?thesis by (simp add: resolve_host_id_def)
  next
    case (Cons hostUser rest)
    then have "hostUser \<in> set [u \<leftarrow> users d. u_id u = p_id caller]" by simp
    then have "hostUser \<in> set (users d)" "u_id hostUser = p_id caller" by simp_all
    with a have "toLowerCase (u_name hostUser) \<noteq> toLowerCase (q_hostName req)" by blast
    with a Cons show ?thesis by (simp add: resolve_host_id_def)
  qed
  with assms(2-5) show "checkin coll now None d caller req
                = (Reply 403 (Message ''Hosts can only check in visitors for themselves.''), d)"
    by (rule checkin_rejected)
next
  let ?M = "[u \<leftarrow> users d. sql_eq coll (Some (u_name u)) (Some (q_hostName req))
                           \<and> u_role u = Host
                           \<and> sql_eq coll (u_company_name u) (u_company_name own)]"
  assume a: "p_role caller = Admin \<and> own \<in> set (users d) \<and> u_id own = p_id caller
          \<and> truthy (u_company_name own)
          \<and> hostRow \<in> set (users d) \<and> sql_eq coll (Some (u_name hostRow)) (Some (q_hostName req))
          \<and> u_role hostRow = Host \<and> sql_eq coll (u_company_name hostRow) (u_company_name own)"
  then have own: "[u \<leftarrow> users d. u_id u = p_id caller] = [own]"
    using filter_id_unique [of u_id "users d" own] assms(1) by simp
  from a have hm: "hostRow \<in> set ?M" by simp
  have "?M \<noteq> []"
  proof
    assume "?M = []"
    with hm show False by (simp only: list.set empty_iff)
  qed
  then obtain m ms where M: "?M = m # ms" by (meson neq_Nil_conv)
  then have "m \<in> set ?M" by simp
  then have m: "m \<in> set (users d)" "sql_eq coll (Some (u_name m)) (Some (q_hostName req))"
    "u_role m = Host" "sql_eq coll (u_company_name m) (u_company_name own)"
    by simp_all
  have "resolve_host_id coll None d caller (q_hostName req) = Inr (u_id m)"
    using a own M by (simp add: resolve_host_id_def)
  with m show "\<exists>u \<in> set (users d). sql_eq coll (Some (u_name u)) (Some (q_hostName req))
                  \<and> u_role u = Host \<and> sql_eq coll (u_company_name u) (u_company_name own)
                  \<and> resolve_host_id coll None d caller (q_hostName req) = Inr (u_id u)"
    by blast
next
  assume a: "p_role caller = Admin \<and> own \<in> set (users d) \<and> u_id own = p_id caller
          \<and> truthy (u_company_name own)
          \<and> \<not> (\<exists>u \<in> set (users d). sql_eq coll (Some (u_name u)) (Some (q_hostName req))
                   \<and> u_role u = Host \<and> sql_eq coll (u_company_name u) (u_company_name own))"
  then have own: "[u \<leftarrow> users d. u_id u = p_id caller] = [own]"
    using filter_id_unique [of u_id "users d" own] assms(1) by simp
  from a have "[u \<leftarrow> users d. sql_eq coll (Some (u_name u)) (Some (q_hostName req))
                           \<and> u_role u = Host
                           \<and> sql_eq coll (u_company_name u) (u_company_name own)] = []"
    by (auto simp: filter_empty_conv)
  with a own have "resolve_host_id coll None d caller (q_hostName req)
          = Inl (Reply 404 (Message ''Host not found in your company.''))"
    by (simp add: resolve_host_id_def)
  with assms(2-5) show "checkin coll now None d caller req
                = (Reply 404 (Message ''Host not found in your company.''), d)"
    by (rule checkin_rejected)
next
  assume a: "p_role caller = Admin
          \<and> \<not> (\<exists>u \<in> set (users d). u_id u = p_id caller \<and> truthy (u_company_name u))"
  have "resolve_host_id coll None d caller (q_hostName req)
          = Inl (Reply 400 (Message ''Admin company information not found.''))"
  proof (cases "[u \<leftarrow> users d. u_id u = p_id caller]")
    case Nil
    with a show ?thesis by (simp add: resolve_host_id_def)
  next
    case (Cons adminUser rest)
    then have "adminUser \<in> set [u \<leftarrow> users d. u_id u = p_id caller]" by simp
    then have "adminUser \<in> set (users d)" "u_id adminUser = p_id caller" by simp_all
    with a have "\<not> truthy (u_company_name adminUser)" by blast
    with a Cons show ?thesis by (simp add: resolve_host_id_def)
  qed
  with assms(2-5) show "checkin coll now None d caller req
                = (Reply 400 (Message ''Admin company information not found.''), d)"
    by (rule checkin_rejected)
qed

theorem host_id_resolution_witness:
  "(distinct (map u_id (users db0))
    \<and> q_name (alice_req ''BOB'' None) \<noteq> [] \<and> q_email (alice_req ''BOB'' None) \<noteq> []
    \<and> q_hostName (alice_req ''BOB'' None) \<noteq> [] \<and> q_idCardNumber (alice_req ''BOB'' None) \<noteq> []
    \<and> bob \<in> set (users db0) \<and> u_id bob = 2
    \<and> toLowerCase (u_name bob) = toLowerCase (q_hostName (alice_req ''BOB'' None))
    \<and> acme_admin \<in> set (users db0) \<and> u_id acme_admin = 1 \<and> truthy (u_company_name acme_admin))
   \<and> resolve_host_id binary None db0 \<lparr>p_id = 2, p_role = Host\<rparr> ''BOB'' = Inr 2
   \<and> checkin binary 100 None db0 \<lparr>p_id = 2, p_role = Host\<rparr> (alice_req ''Carol'' None)
       = (Reply 403 (Message ''Hosts can only check in visitors for themselves.''), db0)
   \<and> checkin binary 100 None db0 \<lparr>p_id = 1, p_role = Admin\<rparr> (alice_req ''Carol'' None)
       = (Reply 404 (Message ''Host not found in your company.''), db0)"
proof -
  have d: "distinct (map u_id (users db0))" by code_simp
  have q1: "q_name (alice_req ''BOB'' None) \<noteq> []" "q_email (alice_req ''BOB'' None) \<noteq> []"
    "q_hostName (alice_req ''BOB'' None) \<noteq> []" "q_idCardNumber (alice_req ''BOB'' None) \<noteq> []"
    by code_simp+
  have q2: "q_name (alice_req ''Carol'' None) \<noteq> []" "q_email (alice_req ''Carol'' None) \<noteq> []"
    "q_hostName (alice_req ''Carol'' None) \<noteq> []" "q_idCardNumber (alice_req ''Carol'' None) \<noteq> []"
    by code_simp+
  have b: "p_role \<lparr>p_id = 2, p_role = Host\<rparr> = Host" "bob \<in> set (users db0)"
    "u_id bob = p_id \<lparr>p_id = 2, p_role = Host\<rparr>"
    "toLowerCase (u_name bob) = toLowerCase (q_hostName (alice_req ''BOB'' None))"
    "q_hostName (alice_req ''BOB'' None) = ''BOB''" "u_id bob = 2"
    by code_simp+
  have b2: "\<not> (\<exists>u \<in> set (users db0). u_id u = p_id \<lparr>p_id = 2, p_role = Host\<rparr>
                  \<and> toLowerCase (u_name u) = toLowerCase (q_hostName (alice_req ''Carol'' None)))"
    by code_simp
  have a: "p_role \<lparr>p_id = 1, p_role = Admin\<rparr> = Admin" "acme_admin \<in> set (users db0)"
    "u_id acme_admin = p_id \<lparr>p_id = 1, p_role = Admin\<rparr>" "truthy (u_company_name acme_admin)"
    "u_id acme_admin = 1"
    by code_simp+
  have a2: "\<not> (\<exists>u \<in> set (users db0).
                 sql_eq binary (Some (u_name u)) (Some (q_hostName (alice_req ''Carol'' None)))
                 \<and> u_role u = Host
                 \<and> sql_eq binary (u_company_name u) (u_company_name acme_admin))"
    by code_simp
  from host_id_resolution [OF d q1, where caller = "\<lparr>p_id = 2, p_role = Host\<rparr>"
      and own = bob and coll = binary] b
  have 1: "resolve_host_id binary None db0 \<lparr>p_id = 2, p_role = Host\<rparr> ''BOB'' = Inr 2"
    by simp
  from host_id_resolution [OF d q2, where caller = "\<lparr>p_id = 2, p_role = Host\<rparr>"
      and coll = binary and now = 100] b(1) b2
  have 2: "checkin binary 100 None db0 \<lparr>p_id = 2, p_role = Host\<rparr> (alice_req ''Carol'' None)
       = (Reply 403 (Message ''Hosts can only check in visitors for themselves.''), db0)"
    by blast
  from host_id_resolution [OF d q2, where caller = "\<lparr>p_id = 1, p_role = Admin\<rparr>"
      and own = acme_admin and coll = binary and now = 100]
    a a2
  have 3: "checkin binary 100 None db0 \<lparr>p_id = 1, p_role = Admin\<rparr> (alice_req ''Carol'' None)
       = (Reply 404 (Message ''Host not found in your company.''), db0)"
    by blast
  from d q1 b a 1 2 3 show ?thesis by simp
qed

text \<open>
  C6 as stated fails for the admin that the schema script seeds: no host resolves, and
  the reply is 400, not 404.
\<close>

theorem admin_without_company_counterexample:
  "p_role \<lparr>p_id = 5, p_role = Admin\<rparr> = Admin
   \<and> [u \<leftarrow> users db0. u_id u = 5] = [seeded_admin]
   \<and> [u \<leftarrow> users db0. sql_eq binary (Some (u_name u)) (Some ''Nobody'') \<and> u_role u = Host
                        \<and> sql_eq binary (u_company_name u) (u_company_name seeded_admin)] = []
   \<and> checkin binary 100 None db0 \<lparr>p_id = 5, p_role = Admin\<rparr> (alice_req ''Nobody'' (Some ''Meeting''))
       = (Reply 400 (Message ''Admin company information not found.''), db0)"
  by code_simp

text \<open>
  C7 (as amended). For an admin whose company name is set, the listing has no
  duplicates and holds exactly the joined rows whose host has the admin's company and
  that pass every supplied filter: the host id, the first and the last day of
  check-in, and the two name filters, where a name passes when it is LIKE the filter
  text between two percent signs. For a filter text without the characters percent,
  underscore and backslash that is: the name contains the text, up to the collation.
  A host gets exactly the joined rows of the caller's own visits. Both listings are
  ordered by check-in time, latest first.
\<close>

theorem visit_listings:
  assumes "distinct (map u_id (users d))"
  shows "(p_role caller = Admin \<and> own \<in> set (users d) \<and> u_id own = p_id caller
          \<and> truthy (u_company_name own) \<longrightarrow>
          (\<exists>rows. get_visits coll None d caller f = Reply 200 (VisitList rows)
             \<and> distinct rows
             \<and> set rows =
                 {(v, vis, h). v \<in> set (visits d) \<and> vis \<in> set (visitors d) \<and> h \<in> set (users d)
                    \<and> v_visitor_id v = vis_id vis \<and> v_host_id v = u_id h
                    \<and> sql_eq coll (u_company_name h) (u_company_name own)
                    \<and> (\<forall>i. f_hostId f = Some i \<longrightarrow> v_host_id v = i)
                    \<and> (\<forall>s. f_startDate f = Some s \<longrightarrow> s \<le> DATE (v_check_in_time v))
                    \<and> (\<forall>e. f_endDate f = Some e \<longrightarrow> DATE (v_check_in_time v) \<le> e)
                    \<and> (f_hostName f \<noteq> [] \<longrightarrow> like coll (''%'' @ f_hostName f @ ''%'') (u_name h))
                    \<and> (f_visitorName f \<noteq> [] \<longrightarrow>
                          like coll (''%'' @ f_visitorName f @ ''%'') (vis_name vis))}
             \<and> sorted_wrt (\<lambda>a b. v_check_in_time (fst b) \<le> v_check_in_time (fst a)) rows))
       \<and> (wildcard_free p \<longrightarrow>
            like coll (''%'' @ p @ ''%'') s
              = (\<exists>pre mid post. s = pre @ mid @ post
                   \<and> list_all2 (\<lambda>a b. coll [a] = coll [b]) p mid))
       \<and> (p_role caller = Host \<longrightarrow>
          (\<exists>rows. get_host_visits None d caller = Reply 200 (VisitList rows)
             \<and> mset rows = mset [(v, vis, h) \<leftarrow> joined d. v_host_id v = p_id caller]
             \<and> set rows =
                 {(v, vis, h). v \<in> set (visits d) \<and> vis \<in> set (visitors d) \<and> h \<in> set (users d)
                    \<and> v_visitor_id v = vis_id vis \<and> v_host_id v = u_id h
                    \<and> v_host_id v = p_id caller}
             \<and> sorted_wrt (\<lambda>a b. v_check_in_time (fst b) \<le> v_check_in_time (fst a)) rows))"
proof (intro conjI impI)
  assume a: "p_role caller = Admin \<and> own \<in> set (users d) \<and> u_id own = p_id caller
          \<and> truthy (u_company_name own)"
  then have own: "[u \<leftarrow> users d. u_id u = p_id caller] = [own]"
    using filter_id_unique [of u_id "users d" own] assms by simp
  let ?rows = "order_by_check_in_time_desc (remdups
                    [(v, vis, h) \<leftarrow> joined d.
                       sql_eq coll (u_company_name h) (u_company_name own)
                       \<and> list_all (\<lambda>c. c (v, vis, h)) (conditions coll f)])"
  have 1: "get_visits coll None d caller f = Reply 200 (VisitList ?rows)"
    using a own by (simp add: get_visits_def)
  have 2: "distinct ?rows" by (simp add: order_by_props)
  have 3: "set ?rows =
                 {(v, vis, h). v \<in> set (visits d) \<and> vis \<in> set (visitors d) \<and> h \<in> set (users d)
                    \<and> v_visitor_id v = vis_id vis \<and> v_host_id v = u_id h
                    \<and> sql_eq coll (u_company_name h) (u_company_name own)
                    \<and> (\<forall>i. f_hostId f = Some i \<longrightarrow> v_host_id v = i)
                    \<and> (\<forall>s. f_startDate f = Some s \<longrightarrow> s \<le> DATE (v_check_in_time v))
                    \<and> (\<forall>e. f_endDate f = Some e \<longrightarrow> DATE (v_check_in_time v) \<le> e)
                    \<and> (f_hostName f \<noteq> [] \<longrightarrow> like coll (''%'' @ f_hostName f @ ''%'') (u_name h))
                    \<and> (f_visitorName f \<noteq> [] \<longrightarrow>
                          like coll (''%'' @ f_visitorName f @ ''%'') (vis_name vis))}"
    unfolding order_by_props set_remdups set_filter set_joined conditions_all by blast
  have 4: "sorted_wrt (\<lambda>a b. v_check_in_time (fst b) \<le> v_check_in_time (fst a)) ?rows"
    by (rule order_by_props)
  from 1 2 3 4 show "\<exists>rows. get_visits coll None d caller f = Reply 200 (VisitList rows)
             \<and> distinct rows
             \<and> set rows =
                 {(v, vis, h). v \<in> set (visits d) \<and> vis \<in> set (visitors d) \<and> h \<in> set (users d)
                    \<and> v_visitor_id v = vis_id vis \<and> v_host_id v = u_id h
                    \<and> sql_eq coll (u_company_name h) (u_company_name own)
                    \<and> (\<forall>i. f_hostId f = Some i \<longrightarrow> v_host_id v = i)
                    \<and> (\<forall>s. f_startDate f = Some s \<longrightarrow> s \<le> DATE (v_check_in_time v))
                    \<and> (\<forall>e. f_endDate f = Some e \<longrightarrow> DATE (v_check_in_time v) \<le> e)
                    \<and> (f_hostName f \<noteq> [] \<longrightarrow> like coll (''%'' @ f_hostName f @ ''%'') (u_name h))
                    \<and> (f_visitorName f \<noteq> [] \<longrightarrow>
                          like coll (''%'' @ f_visitorName f @ ''%'') (vis_name vis))}
             \<and> sorted_wrt (\<lambda>a b. v_check_in_time (fst b) \<le> v_check_in_time (fst a)) rows"
    by blast
next
  assume "wildcard_free p"
  then show "like coll (''%'' @ p @ ''%'') s
              = (\<exists>pre mid post. s = pre @ mid @ post
                   \<and> list_all2 (\<lambda>a b. coll [a] = coll [b]) p mid)"
    by (rule like_contains)
next
  assume a: "p_role caller = Host"
  let ?rows = "order_by_check_in_time_desc [(v, vis, h) \<leftarrow> joined d. v_host_id v = p_id caller]"
  have 1: "get_host_visits None d caller = Reply 200 (VisitList ?rows)"
    using a by (simp add: get_host_visits_def)
  have 2: "mset ?rows = mset [(v, vis, h) \<leftarrow> joined d. v_host_id v = p_id caller]"
    by (rule order_by_props)
  have 3: "set ?rows =
                 {(v, vis, h). v \<in> set (visits d) \<and> vis \<in> set (visitors d) \<and> h \<in> set (users d)
                    \<and> v_visitor_id v = vis_id vis \<and> v_host_id v = u_id h
                    \<and> v_host_id v = p_id caller}"
    unfolding order_by_props set_filter set_joined by blast
  have 4: "sorted_wrt (\<lambda>a b. v_check_in_time (fst b) \<le> v_check_in_time (fst a)) ?rows"
    by (rule order_by_props)
  from 1 2 3 4 show "\<exists>rows. get_host_visits None d caller = Reply 200 (VisitList rows)
             \<and> mset rows = mset [(v, vis, h) \<leftarrow> joined d. v_host_id v = p_id caller]
             \<and> set rows =
                 {(v, vis, h). v \<in> set (visits d) \<and> vis \<in> set (visitors d) \<and> h \<in> set (users d)
                    \<and> v_visitor_id v = vis_id vis \<and> v_host_id v = u_id h
                    \<and> v_host_id v = p_id caller}
             \<and> sorted_wrt (\<lambda>a b. v_check_in_time (fst b) \<le> v_check_in_time (fst a)) rows"
    by blast
qed

theorem visit_listings_witness:
  "(distinct (map u_id (users db3))
    \<and> p_role \<lparr>p_id = 1, p_role = Admin\<rparr> = Admin \<and> acme_admin \<in> set (users db3)
    \<and> u_id acme_admin = p_id \<lparr>p_id = 1, p_role = Admin\<rparr> \<and> truthy (u_company_name acme_admin)
    \<and> wildcard_free ''Bo'' \<and> p_role \<lparr>p_id = 4, p_role = Host\<rparr> = Host)
   \<and> get_visits binary None db3 \<lparr>p_id = 1, p_role = Admin\<rparr> (no_filters\<lparr>f_hostName := ''Bo''\<rparr>)
       = Reply 200 (VisitList [(alice_visit, alice_visitor, bob)])
   \<and> (\<exists>rows. get_visits binary None db3 \<lparr>p_id = 1, p_role = Admin\<rparr>
                  (no_filters\<lparr>f_hostName := ''Bo''\<rparr>) = Reply 200 (VisitList rows)
          \<and> (alice_visit, alice_visitor, bob) \<in> set rows
          \<and> (carol_visit, carol_visitor, carol) \<notin> set rows)
   \<and> like binary (''%'' @ ''Bo'' @ ''%'') ''Bob''
   \<and> get_host_visits None db3 \<lparr>p_id = 4, p_role = Host\<rparr>
       = Reply 200 (VisitList [(carol_visit, carol_visitor, carol)])
   \<and> (\<exists>rows. get_host_visits None db3 \<lparr>p_id = 4, p_role = Host\<rparr> = Reply 200 (VisitList rows)
          \<and> (carol_visit, carol_visitor, carol) \<in> set rows)"
proof -
  let ?f = "no_filters\<lparr>f_hostName := ''Bo''\<rparr>"
  have d: "distinct (map u_id (users db3))"
    unfolding db3_def db1_def by code_simp
  have a: "p_role \<lparr>p_id = 1, p_role = Admin\<rparr> = Admin" "acme_admin \<in> set (users db3)"
    "u_id acme_admin = p_id \<lparr>p_id = 1, p_role = Admin\<rparr>" "truthy (u_company_name acme_admin)"
    unfolding db3_def db1_def by code_simp+
  have w: "wildcard_free ''Bo''" by code_simp
  have c: "p_role \<lparr>p_id = 4, p_role = Host\<rparr> = Host" by code_simp
  have e1: "get_visits binary None db3 \<lparr>p_id = 1, p_role = Admin\<rparr> ?f
       = Reply 200 (VisitList [(alice_visit, alice_visitor, bob)])"
    unfolding db3_def db1_def by code_simp
  have e2: "get_host_visits None db3 \<lparr>p_id = 4, p_role = Host\<rparr>
       = Reply 200 (VisitList [(carol_visit, carol_visitor, carol)])"
    unfolding db3_def db1_def by code_simp
  have m: "alice_visit \<in> set (visits db3)" "alice_visitor \<in> set (visitors db3)"
    "bob \<in> set (users db3)" "v_visitor_id alice_visit = vis_id alice_visitor"
    "v_host_id alice_visit = u_id bob"
    "sql_eq binary (u_company_name bob) (u_company_name acme_admin)"
    "f_hostId ?f = None" "f_startDate ?f = None" "f_endDate ?f = None"
    "like binary (''%'' @ f_hostName ?f @ ''%'') (u_name bob)" "f_visitorName ?f = []"
    unfolding db3_def db1_def by code_simp+
  have n: "\<not> sql_eq binary (u_company_name carol) (u_company_name acme_admin)"
    by code_simp
  have m2: "carol_visit \<in> set (visits db3)" "carol_visitor \<in> set (visitors db3)"
    "carol \<in> set (users db3)" "v_visitor_id carol_visit = vis_id carol_visitor"
    "v_host_id carol_visit = u_id carol"
    "v_host_id carol_visit = p_id \<lparr>p_id = 4, p_role = Host\<rparr>"
    unfolding db3_def db1_def by code_simp+
  note t1 = visit_listings [OF d, where caller = "\<lparr>p_id = 1, p_role = Admin\<rparr>"
      and own = acme_admin and coll = binary and f = ?f and p = "''Bo''" and s = "''Bob''"]
  note t2 = visit_listings [OF d, where caller = "\<lparr>p_id = 4, p_role = Host\<rparr>"]
  have "p_role \<lparr>p_id = 1, p_role = Admin\<rparr> = Admin \<and> acme_admin \<in> set (users db3)
          \<and> u_id acme_admin = p_id \<lparr>p_id = 1, p_role = Admin\<rparr>
          \<and> truthy (u_company_name acme_admin)"
    by (intro conjI a)
  from mp [OF t1 [THEN conjunct1] this] obtain rows where rr:
      "get_visits binary None db3 \<lparr>p_id = 1, p_role = Admin\<rparr> ?f = Reply 200 (VisitList rows)
       \<and> distinct rows
       \<and> set rows =
         {(v, vis, h). v \<in> set (visits db3) \<and> vis \<in> set (visitors db3) \<and> h \<in> set (users db3)
            \<and> v_visitor_id v = vis_id vis \<and> v_host_id v = u_id h
            \<and> sql_eq binary (u_company_name h) (u_company_name acme_admin)
            \<and> (\<forall>i. f_hostId ?f = Some i \<longrightarrow> v_host_id v = i)
            \<and> (\<forall>s. f_startDate ?f = Some s \<longrightarrow> s \<le> DATE (v_check_in_time v))
            \<and> (\<forall>e. f_endDate ?f = Some e \<longrightarrow> DATE (v_check_in_time v) \<le> e)
            \<and> (f_hostName ?f \<noteq> [] \<longrightarrow> like binary (''%'' @ f_hostName ?f @ ''%'') (u_name h))
            \<and> (f_visitorName ?f \<noteq> [] \<longrightarrow>
                  like binary (''%'' @ f_visitorName ?f @ ''%'') (vis_name vis))}
       \<and> sorted_wrt (\<lambda>a b. v_check_in_time (fst b) \<le> v_check_in_time (fst a)) rows"
    by (elim exE)
  note r = conjunct1 [OF rr] conjunct1 [OF conjunct2 [OF conjunct2 [OF rr]]]
  have in1: "(alice_visit, alice_visitor, bob) \<in> set rows"
    unfolding r(2) using m by simp
  have out1: "(carol_visit, carol_visitor, carol) \<notin> set rows"
    unfolding r(2) using n by simp
  have "''Bob'' = [] @ ''Bo'' @ ''b''" by simp
  moreover have "list_all2 (\<lambda>a b. binary [a] = binary [b]) ''Bo'' ''Bo''"
    by (simp add: list_all2_same)
  ultimately have "\<exists>pre mid post. ''Bob'' = pre @ mid @ post
                     \<and> list_all2 (\<lambda>a b. binary [a] = binary [b]) ''Bo'' mid"
    by blast
  with mp [OF t1 [THEN conjunct2, THEN conjunct1] w]
  have l: "like binary (''%'' @ ''Bo'' @ ''%'') ''Bob''" by (simp only:)
  from mp [OF t2 [THEN conjunct2, THEN conjunct2] c] obtain rows2 where rr2:
      "get_host_visits None db3 \<lparr>p_id = 4, p_role = Host\<rparr> = Reply 200 (VisitList rows2)
       \<and> mset rows2 = mset [(v, vis, h) \<leftarrow> joined db3. v_host_id v = p_id \<lparr>p_id = 4, p_role = Host\<rparr>]
       \<and> set rows2 =
         {(v, vis, h). v \<in> set (visits db3) \<and> vis \<in> set (visitors db3) \<and> h \<in> set (users db3)
            \<and> v_visitor_id v = vis_id vis \<and> v_host_id v = u_id h
            \<and> v_host_id v = p_id \<lparr>p_id = 4, p_role = Host\<rparr>}
       \<and> sorted_wrt (\<lambda>a b. v_check_in_time (fst b) \<le> v_check_in_time (fst a)) rows2"
    by (elim exE)
  note r2 = conjunct1 [OF rr2] conjunct1 [OF conjunct2 [OF conjunct2 [OF rr2]]]
  have in2: "(carol_visit, carol_visitor, carol) \<in> set rows2"
    unfolding r2(2) using m2 by simp
  from r(1) in1 out1 have x1: "\<exists>rows. get_visits binary None db3 \<lparr>p_id = 1, p_role = Admin\<rparr>
                  (no_filters\<lparr>f_hostName := ''Bo''\<rparr>) = Reply 200 (VisitList rows)
          \<and> (alice_visit, alice_visitor, bob) \<in> set rows
          \<and> (carol_visit, carol_visitor, carol) \<notin> set rows"
    by blast
  from r2(1) in2 have x2: "\<exists>rows. get_host_visits None db3 \<lparr>p_id = 4, p_role = Host\<rparr>
            = Reply 200 (VisitList rows)
          \<and> (carol_visit, carol_visitor, carol) \<in> set rows"
    by blast
  show ?thesis by (intro conjI d a w c e1 e2 x1 x2 l)
qed

text \<open>
  C7 as stated fails for a filter text with a wildcard: Bob's visit is listed for the
  host name filter \<open>B_b\<close>, which the name Bob does not contain.
\<close>

theorem like_wildcard_counterexample:
  "get_visits binary None db3 \<lparr>p_id = 1, p_role = Admin\<rparr> (no_filters\<lparr>f_hostName := ''B_b''\<rparr>)
     = Reply 200 (VisitList [(alice_visit, alice_visitor, bob)])
   \<and> u_name bob = ''Bob'' \<and> \<not> sublist ''B_b'' ''Bob''"
  unfolding db3_def db1_def by code_simp

end
